theory Spec2Isabelle
  imports Main
begin

section \<open>Python values used by git-cloner.py\<close>

text \<open>
  Python strings are modelled as \<open>string\<close> (a list of 8-bit characters), exceptions as
  values of the type \<open>exn\<close>: a function of the source that may raise returns
  \<open>exn + 'a\<close>, with \<open>Inl\<close> for the exception. An exception carries the fixed part of
  its message and, where the source formats another exception into the message
  (\<^verbatim>\<open>f"...: {e}"\<close>), that exception.
\<close>

datatype exn =
    ValueError string "exn option"
  | RuntimeError string "exn option"
  | CalledProcessError
  | HTTPError nat
  | IndexError
  | JSONDecodeError
  | OSError

subsection \<open>\<^verbatim>\<open>str\<close> methods\<close>

definition startswith :: "string \<Rightarrow> string \<Rightarrow> bool" where
  "startswith s p = (take (length p) s = p)"

definition endswith :: "string \<Rightarrow> string \<Rightarrow> bool" where
  "endswith s p = (length p \<le> length s \<and> drop (length s - length p) s = p)"

text \<open>\<^verbatim>\<open>s.split(c)\<close> for a separator of one character: never the empty list.\<close>

fun split_char :: "char \<Rightarrow> string \<Rightarrow> string list" where
  "split_char c [] = [[]]"
| "split_char c (x # xs) =
     (if x = c then [] # split_char c xs
      else (case split_char c xs of [] \<Rightarrow> [[x]] | y # ys \<Rightarrow> (x # y) # ys))"

text \<open>\<^verbatim>\<open>s.strip(c)\<close> for one character, and \<^verbatim>\<open>s.strip()\<close> for white space.\<close>

definition strip_char :: "char \<Rightarrow> string \<Rightarrow> string" where
  "strip_char c s = rev (dropWhile (\<lambda>x. x = c) (rev (dropWhile (\<lambda>x. x = c) s)))"

definition is_space :: "char \<Rightarrow> bool" where
  "is_space c = (c \<in> {CHR '' '', CHR 0x09, CHR 0x0A, CHR 0x0B, CHR 0x0C, CHR 0x0D,
                       CHR 0x1C, CHR 0x1D, CHR 0x1E, CHR 0x1F, CHR 0x85, CHR 0xA0})"

definition strip_ws :: "string \<Rightarrow> string" where
  "strip_ws s = rev (dropWhile is_space (rev (dropWhile is_space s)))"

text \<open>\<^verbatim>\<open>s[:-4]\<close> after \<^verbatim>\<open>s.endswith(".git")\<close>.\<close>

definition strip_git :: "string \<Rightarrow> string" where
  "strip_git s = (if endswith s ''.git'' then take (length s - 4) s else s)"

section \<open>The environment of a run\<close>

text \<open>
  The version-control executable, the hosting API, the file system and the clock are
  outside the program. A run sees them through the record \<open>env\<close>: each field is the
  answer the environment gives when it is asked. The first argument of such a field is
  the time of the question, counted in the events of the run so far, so that the same
  question may get different answers during a run (a path that exists after a clone, a
  rate limit that is lifted).
\<close>

record repo_data =
  name :: string
  clone_url :: string
  ssh_url :: string
  default_branch :: string
  description :: "string option"
  private_flag :: bool
  fork :: bool

text \<open>
  The two request URLs of \<^verbatim>\<open>fetch_github_repos\<close>, by their parts:
  \<^verbatim>\<open>https://api.github.com/orgs/{org_user}/repos?page={page}&per_page={per_page}\<close> and the
  same under \<^verbatim>\<open>/users/\<close>.
\<close>

datatype api = OrgsRepos string nat nat | UsersRepos string nat nat

text \<open>
  What \<^verbatim>\<open>urllib.request.urlopen\<close> and the decoding of the body give:
  status 200 with a list of descriptors; another status without an exception; an
  \<^verbatim>\<open>HTTPError\<close> with its code; any other exception (network failure, a body that is no
  JSON list of descriptors).
\<close>

datatype response = Ok200 "repo_data list" | Status nat | HttpError nat | Failure

record env =
  base_dir :: string
  joinpath :: "string \<Rightarrow> string \<Rightarrow> string"
  netloc_ok :: "string \<Rightarrow> bool"
  path_exists :: "nat \<Rightarrow> string \<Rightarrow> bool"
  mkdir_parent :: "nat \<Rightarrow> string \<Rightarrow> bool"
  run :: "nat \<Rightarrow> string list \<Rightarrow> string option \<Rightarrow> exn + string"
  urlopen :: "nat \<Rightarrow> api \<Rightarrow> response"
  now :: "nat \<Rightarrow> string"
  can_read :: "nat \<Rightarrow> bool"
  can_write :: "nat \<Rightarrow> bool"

text \<open>
  \<^item> \<open>base_dir\<close> is \<^verbatim>\<open>self.base_dir\<close>; \<open>joinpath p s\<close> is pathlib's \<^verbatim>\<open>p / s\<close>, paths
    being kept as the strings \<^verbatim>\<open>str\<close> gives.
  \<^item> \<open>netloc_ok\<close> stands for the two validations of \<^verbatim>\<open>urllib.parse.urlsplit\<close> that are
    not modelled below (\<^verbatim>\<open>_check_bracketed_host\<close>, \<^verbatim>\<open>_checknetloc\<close>).
  \<^item> \<open>path_exists t p\<close> is \<^verbatim>\<open>Path(p).exists()\<close>; \<open>mkdir_parent t p\<close> says whether
    \<^verbatim>\<open>p.parent.mkdir(parents=True, exist_ok=True)\<close> returns without an exception.
  \<^item> \<open>run t argv cwd\<close> is \<^verbatim>\<open>subprocess.run(argv, cwd=cwd, check=True)\<close>: the standard
    output, or the exception raised (\<open>CalledProcessError\<close> for a non-zero exit).
  \<^item> \<open>now t\<close> is \<^verbatim>\<open>datetime.now().isoformat()\<close>.
  \<^item> \<open>can_read t\<close>, \<open>can_write t\<close>: whether opening the index file for reading, for
    writing, succeeds.
\<close>

section \<open>URL Parser\<close>

subsection \<open>\<^verbatim>\<open>urllib.parse.urlparse\<close>\<close>

text \<open>
  The standard library's \<^verbatim>\<open>urlparse\<close> (CPython 3.11), as far as the program uses it:
  the components \<^verbatim>\<open>netloc\<close> and \<^verbatim>\<open>path\<close>. The steps are those of \<^verbatim>\<open>urlsplit\<close>
  (strip leading control characters and spaces, delete tab, CR and LF, split off the
  scheme, the netloc, the fragment and the query) followed by \<^verbatim>\<open>_splitparams\<close>.
\<close>

definition scheme_chars :: string where
  "scheme_chars = ''abcdefghijklmnopqrstuvwxyzABCDEFGHIJKLMNOPQRSTUVWXYZ0123456789+-.''"

definition ascii_alpha :: "char \<Rightarrow> bool" where
  "ascii_alpha c = (c \<in> set ''abcdefghijklmnopqrstuvwxyzABCDEFGHIJKLMNOPQRSTUVWXYZ'')"

definition lower_char :: "char \<Rightarrow> char" where
  "lower_char c =
     (let n = (of_char c :: nat) in if 65 \<le> n \<and> n \<le> 90 then char_of (n + 32) else c)"

definition uses_params :: "string list" where
  "uses_params = ['''', ''ftp'', ''hdl'', ''prospero'', ''http'', ''imap'', ''https'',
     ''shttp'', ''rtsp'', ''rtsps'', ''rtspu'', ''sip'', ''sips'', ''mms'', ''sftp'', ''tel'']"

definition split_scheme :: "string \<Rightarrow> string \<times> string" where
  "split_scheme url =
     (let pre = takeWhile (\<lambda>c. c \<noteq> CHR '':'') url in
      if CHR '':'' \<in> set url \<and> pre \<noteq> [] \<and> ascii_alpha (hd url)
         \<and> list_all (\<lambda>c. c \<in> set scheme_chars) pre
      then (map lower_char pre, drop (length pre + 1) url)
      else ('''', url))"

definition splitnetloc :: "string \<Rightarrow> string \<times> string" where
  "splitnetloc url =
     (if take 2 url = ''//''
      then (takeWhile (\<lambda>c. c \<notin> set ''/?#'') (drop 2 url),
            dropWhile (\<lambda>c. c \<notin> set ''/?#'') (drop 2 url))
      else ('''', url))"

definition splitparams :: "string \<Rightarrow> string" where
  "splitparams url =
     (if CHR ''/'' \<in> set url
      then (let k = length url - length (takeWhile (\<lambda>c. c \<noteq> CHR ''/'') (rev url)) - 1
            in take k url @ takeWhile (\<lambda>c. c \<noteq> CHR '';'') (drop k url))
      else takeWhile (\<lambda>c. c \<noteq> CHR '';'') url)"

definition urlparse :: "env \<Rightarrow> string \<Rightarrow> exn + (string \<times> string)" where
  "urlparse env url0 =
     (let url1 = filter (\<lambda>c. c \<notin> {CHR 0x09, CHR 0x0D, CHR 0x0A})
                   (dropWhile (\<lambda>c. (of_char c :: nat) \<le> 32) url0);
          (scheme, url2) = split_scheme url1;
          (netloc, url3) = splitnetloc url2
      in if (CHR ''['' \<in> set netloc) \<noteq> (CHR '']'' \<in> set netloc)
         then Inl (ValueError ''Invalid IPv6 URL'' None)
         else if (CHR ''['' \<in> set netloc \<or> \<not> list_all (\<lambda>c. (of_char c :: nat) < 128) netloc)
                 \<and> \<not> netloc_ok env netloc
         then Inl (ValueError ''invalid netloc'' None)
         else (let url4 = takeWhile (\<lambda>c. c \<noteq> CHR ''?'') (takeWhile (\<lambda>c. c \<noteq> CHR ''#'') url3)
               in Inr (netloc,
                       if scheme \<in> set uses_params \<and> CHR '';'' \<in> set url4
                       then splitparams url4 else url4)))"

subsection \<open>The program's own parsers\<close>

text \<open>
  \<^verbatim>\<open>is_org_user_url\<close>: one path segment, not empty. The bare \<^verbatim>\<open>except\<close> turns every
  exception of \<^verbatim>\<open>urlparse\<close> into \<^verbatim>\<open>False\<close>.
\<close>

definition org_path :: "string \<Rightarrow> string" where
  "org_path p = (let path = strip_char CHR ''/'' p
                 in if endswith path ''/'' then butlast path else path)"

definition is_org_user_url :: "env \<Rightarrow> string \<Rightarrow> bool" where
  "is_org_user_url env url =
     (case urlparse env url of
        Inl e \<Rightarrow> False
      | Inr (netloc, p) \<Rightarrow>
          (let path_segments = split_char CHR ''/'' (org_path p)
           in length path_segments = 1 \<and> path_segments ! 0 \<noteq> ''''))"

definition parse_org_user_url :: "env \<Rightarrow> string \<Rightarrow> exn + (string \<times> string)" where
  "parse_org_user_url env url =
     (case urlparse env url of
        Inl e \<Rightarrow> Inl (ValueError ''Failed to parse org/user URL'' (Some e))
      | Inr (host, p) \<Rightarrow>
          (let path_segments = split_char CHR ''/'' (org_path p)
           in if length path_segments \<noteq> 1 \<or> path_segments ! 0 = ''''
              then Inl (ValueError ''Failed to parse org/user URL''
                         (Some (ValueError ''Invalid org/user URL format'' None)))
              else Inr (host, path_segments ! 0)))"

text \<open>
  \<^verbatim>\<open>parse_git_url\<close>. The SSH branch is taken for a URL that starts with \<^verbatim>\<open>git@\<close>;
  \<^verbatim>\<open>parts[0].split("@")[1]\<close> is written with its \<^verbatim>\<open>IndexError\<close>. Every other URL goes
  through \<^verbatim>\<open>urlparse\<close>, and every exception there is raised again as a \<^verbatim>\<open>ValueError\<close>.
\<close>

definition parse_git_url :: "env \<Rightarrow> string \<Rightarrow> exn + (string \<times> string \<times> string)" where
  "parse_git_url env git_url =
     (if startswith git_url ''git@'' then
        (let parts = split_char CHR '':'' git_url in
         if length parts \<noteq> 2 then Inl (ValueError ''Invalid SSH git URL format'' None)
         else
           (let at_parts = split_char CHR ''@'' (parts ! 0) in
            if length at_parts < 2 then Inl IndexError
            else
              (let host = at_parts ! 1;
                   path_segments = split_char CHR ''/'' (strip_git (parts ! 1))
               in if length path_segments \<noteq> 2
                  then Inl (ValueError ''Invalid SSH git URL format'' None)
                  else Inr (host, path_segments ! 0, path_segments ! 1))))
      else
        (case urlparse env git_url of
           Inl e \<Rightarrow> Inl (ValueError ''Failed to parse git URL'' (Some e))
         | Inr (host, p) \<Rightarrow>
             (let path_segments = split_char CHR ''/'' (strip_git (strip_char CHR ''/'' p))
              in if length path_segments \<noteq> 2
                 then Inl (ValueError ''Failed to parse git URL''
                            (Some (ValueError ''Invalid git URL format'' None)))
                 else Inr (host, path_segments ! 0, path_segments ! 1))))"

section \<open>Path Resolver\<close>

definition get_local_path :: "env \<Rightarrow> string \<Rightarrow> string \<Rightarrow> string \<Rightarrow> string" where
  "get_local_path env host org repo =
     joinpath env (joinpath env (joinpath env (base_dir env) host) org) repo"

section \<open>The state of a run\<close>

text \<open>
  A \<^verbatim>\<open>RepositoryRecord\<close>: the dictionary with the eight keys that \<^verbatim>\<open>clone_repository\<close>
  builds and \<^verbatim>\<open>json.dumps\<close> writes, one per line of \<^verbatim>\<open>repos.jsonl\<close>.
\<close>

record entry =
  url :: string
  local_path :: string
  host :: string
  org :: string
  repo :: string
  branch :: string
  last_hash :: string
  last_pull :: string

text \<open>
  A line of the index file, by what the loop of \<^verbatim>\<open>read_index\<close> makes of it: white space
  only (\<^verbatim>\<open>line.strip()\<close> is empty, the line is passed over), the JSON text of a record
  (\<^verbatim>\<open>json.loads\<close> returns it, and \<^verbatim>\<open>json.dumps\<close> of a record is such a line), or text
  on which \<^verbatim>\<open>json.loads\<close> raises.
\<close>

datatype line = Blank | Json entry | Garbage

text \<open>One constructor for each \<^verbatim>\<open>print\<close> of the program, with the values it formats.\<close>

datatype msg =
    MsgFetching string string
  | MsgNoRepos string
  | MsgFilteredForks nat
  | MsgFoundToClone nat
  | MsgCloning string string
  | MsgDescription string
  | MsgFailedClone string exn
  | MsgBulkComplete
  | MsgClonedCount nat
  | MsgSkippedCount nat
  | MsgBulkError exn
  | MsgAlreadyExists string
  | MsgUseSync
  | MsgCloningTo string string
  | MsgCloneOk
  | MsgLocalPath string
  | MsgBranch string
  | MsgCommit string
  | MsgCloneError exn
  | MsgIndexReadError exn
  | MsgIndexWriteError exn
  | MsgNoIndex
  | MsgSyncing nat
  | MsgNotFound string
  | MsgSyncingRepo string string
  | MsgUpdated string string string
  | MsgSyncFailed string string exn
  | MsgSyncError string string exn
  | MsgSyncComplete
  | MsgRateLimited
  | MsgFound nat
  | MsgBlank
  | MsgListRepo string string
  | MsgListUrl string
  | MsgListPath string
  | MsgListBranch string
  | MsgListHash string
  | MsgListPull string

text \<open>
  What a run does to the outside, in order: a line printed, a subprocess run (its
  argument vector and working directory), a request sent, a pause (in tenths of a
  second), the parent directories of a path made, the index file written.
\<close>

datatype event =
    Printed msg
  | Ran "string list" "string option"
  | Fetched api
  | Slept nat
  | MadeParents string
  | WroteIndex "entry list"

text \<open>
  The state of a run: the lines of the index file (\<open>None\<close> when the file does not
  exist) and the events so far.
\<close>

record world =
  index_file :: "line list option"
  trace :: "event list"

definition time :: "world \<Rightarrow> nat" where
  "time w = length (trace w)"

definition emit :: "event \<Rightarrow> world \<Rightarrow> world" where
  "emit ev w = w\<lparr>trace := trace w @ [ev]\<rparr>"

definition say :: "msg \<Rightarrow> world \<Rightarrow> world" where
  "say m w = emit (Printed m) w"

section \<open>Repository Index\<close>

text \<open>The loop of \<^verbatim>\<open>read_index\<close>; \<^verbatim>\<open>json.loads\<close> raises on a malformed line.\<close>

fun read_lines :: "line list \<Rightarrow> entry list \<Rightarrow> exn + entry list" where
  "read_lines [] entries = Inr entries"
| "read_lines (Blank # ls) entries = read_lines ls entries"
| "read_lines (Json e # ls) entries = read_lines ls (entries @ [e])"
| "read_lines (Garbage # ls) entries = Inl JSONDecodeError"

text \<open>
  \<^verbatim>\<open>read_index\<close>: the empty list when the file does not exist; every exception of the
  \<^verbatim>\<open>try\<close> block is printed and answered with the empty list.
\<close>

definition read_index :: "env \<Rightarrow> world \<Rightarrow> entry list \<times> world" where
  "read_index env w =
     (case index_file w of
        None \<Rightarrow> ([], w)
      | Some ls \<Rightarrow>
          (case (if can_read env (time w) then read_lines ls [] else Inl OSError) of
             Inl e \<Rightarrow> ([], say (MsgIndexReadError e) w)
           | Inr entries \<Rightarrow> (entries, w)))"

definition write_index :: "env \<Rightarrow> entry list \<Rightarrow> world \<Rightarrow> world" where
  "write_index env entries w =
     (if can_write env (time w)
      then emit (WroteIndex entries) (w\<lparr>index_file := Some (map Json entries)\<rparr>)
      else say (MsgIndexWriteError OSError) w)"

text \<open>The search loop of \<^verbatim>\<open>add_to_index\<close>: the first position with the URL.\<close>

fun find_url :: "entry list \<Rightarrow> string \<Rightarrow> nat \<Rightarrow> nat option" where
  "find_url [] u i = None"
| "find_url (e # es) u i = (if url e = u then Some i else find_url es u (Suc i))"

text \<open>The update of the list in \<^verbatim>\<open>add_to_index\<close>, between the read and the write.\<close>

definition upsert :: "entry list \<Rightarrow> entry \<Rightarrow> entry list" where
  "upsert entries e =
     (case find_url entries (url e) 0 of
        Some existing_index \<Rightarrow> entries[existing_index := e]
      | None \<Rightarrow> entries @ [e])"

definition add_to_index :: "env \<Rightarrow> entry \<Rightarrow> world \<Rightarrow> world" where
  "add_to_index env e w =
     (case read_index env w of (entries, w1) \<Rightarrow> write_index env (upsert entries e) w1)"

definition list_entry :: "entry \<Rightarrow> world \<Rightarrow> world" where
  "list_entry e w =
     say MsgBlank (say (MsgListPull (last_pull e)) (say (MsgListHash (take 8 (last_hash e)))
       (say (MsgListBranch (branch e)) (say (MsgListPath (local_path e))
         (say (MsgListUrl (url e)) (say (MsgListRepo (org e) (repo e)) w))))))"

definition list_repositories :: "env \<Rightarrow> world \<Rightarrow> world" where
  "list_repositories env w =
     (case read_index env w of
        (entries, w1) \<Rightarrow>
          if entries = [] then say MsgNoIndex w1
          else fold list_entry entries (say MsgBlank (say (MsgFound (length entries)) w1)))"

section \<open>Sync Engine\<close>

definition git_info_error :: "exn \<Rightarrow> exn" where
  "git_info_error e =
     (if e = CalledProcessError then RuntimeError ''Failed to get git info'' (Some e) else e)"

definition get_git_info :: "env \<Rightarrow> string \<Rightarrow> world \<Rightarrow> (exn + string \<times> string) \<times> world" where
  "get_git_info env repo_path w =
     (let w1 = emit (Ran [''git'', ''branch'', ''--show-current''] (Some repo_path)) w in
      case run env (time w) [''git'', ''branch'', ''--show-current''] (Some repo_path) of
        Inl e \<Rightarrow> (Inl (git_info_error e), w1)
      | Inr out1 \<Rightarrow>
          (let w2 = emit (Ran [''git'', ''rev-parse'', ''HEAD''] (Some repo_path)) w1 in
           case run env (time w1) [''git'', ''rev-parse'', ''HEAD''] (Some repo_path) of
             Inl e \<Rightarrow> (Inl (git_info_error e), w2)
           | Inr out2 \<Rightarrow> (Inr (strip_ws out1, strip_ws out2), w2)))"

definition clone_cmd :: "string \<Rightarrow> string \<Rightarrow> string option \<Rightarrow> string list" where
  "clone_cmd git_url path b =
     [''git'', ''clone'', git_url, path]
     @ (case b of None \<Rightarrow> [] | Some x \<Rightarrow> if x = [] then [] else [''-b'', x])"

text \<open>
  The \<^verbatim>\<open>try\<close> block of \<^verbatim>\<open>clone_repository\<close>: the value returned, or the exception
  that leaves the block.
\<close>

definition clone_attempt :: "env \<Rightarrow> string \<Rightarrow> string option \<Rightarrow> world \<Rightarrow> (exn + bool) \<times> world" where
  "clone_attempt env git_url b w =
     (case parse_git_url env git_url of
        Inl e \<Rightarrow> (Inl e, w)
      | Inr (h, og, rp) \<Rightarrow>
          (let path = get_local_path env h og rp in
           if path_exists env (time w) path
           then (Inr False, say MsgUseSync (say (MsgAlreadyExists path) w))
           else
             (let w1 = emit (MadeParents path) w in
              if \<not> mkdir_parent env (time w) path then (Inl OSError, w1)
              else
                (let w2 = say (MsgCloningTo git_url path) w1;
                     w3 = emit (Ran (clone_cmd git_url path b) None) w2 in
                 case run env (time w2) (clone_cmd git_url path b) None of
                   Inl e \<Rightarrow> (Inl e, w3)
                 | Inr out \<Rightarrow>
                     (case get_git_info env path w3 of
                        (Inl e, w4) \<Rightarrow> (Inl e, w4)
                      | (Inr (current_branch, commit_hash), w4) \<Rightarrow>
                          (let index_entry = \<lparr>url = git_url, local_path = path, host = h,
                                 org = og, repo = rp, branch = current_branch,
                                 last_hash = commit_hash, last_pull = now env (time w4)\<rparr>;
                               w5 = add_to_index env index_entry w4
                           in (Inr True,
                               say (MsgCommit commit_hash) (say (MsgBranch current_branch)
                                 (say (MsgLocalPath path) (say MsgCloneOk w5))))))))))"

definition clone_repository :: "env \<Rightarrow> string \<Rightarrow> string option \<Rightarrow> world \<Rightarrow> bool \<times> world" where
  "clone_repository env git_url b w =
     (case clone_attempt env git_url b w of
        (Inl e, w1) \<Rightarrow> (False, say (MsgCloneError e) w1)
      | (Inr ok, w1) \<Rightarrow> (ok, w1))"

text \<open>
  One turn of the loop of \<^verbatim>\<open>sync_repositories\<close>: the record as the turn leaves it (the
  dictionary is updated in place only after both queries succeeded).
\<close>

definition sync_entry :: "env \<Rightarrow> entry \<Rightarrow> world \<Rightarrow> entry \<times> world" where
  "sync_entry env e w =
     (if \<not> path_exists env (time w) (local_path e)
      then (e, say (MsgNotFound (local_path e)) w)
      else
        (let w1 = say (MsgSyncingRepo (org e) (repo e)) w;
             w2 = emit (Ran [''git'', ''pull'', ''origin''] (Some (local_path e))) w1 in
         case run env (time w1) [''git'', ''pull'', ''origin''] (Some (local_path e)) of
           Inl x \<Rightarrow>
             (e, say (if x = CalledProcessError then MsgSyncFailed (org e) (repo e) x
                      else MsgSyncError (org e) (repo e) x) w2)
         | Inr out \<Rightarrow>
             (case get_git_info env (local_path e) w2 of
                (Inl x, w3) \<Rightarrow> (e, say (MsgSyncError (org e) (repo e) x) w3)
              | (Inr (b, commit_hash), w3) \<Rightarrow>
                  (e\<lparr>branch := b, last_hash := commit_hash, last_pull := now env (time w3)\<rparr>,
                   say (MsgUpdated (org e) (repo e) (take 8 commit_hash)) w3))))"

fun sync_entries :: "env \<Rightarrow> entry list \<Rightarrow> world \<Rightarrow> entry list \<times> world" where
  "sync_entries env [] w = ([], w)"
| "sync_entries env (e # es) w =
     (case sync_entry env e w of
        (e', w1) \<Rightarrow> (case sync_entries env es w1 of (es', w2) \<Rightarrow> (e' # es', w2)))"

definition sync_repositories :: "env \<Rightarrow> world \<Rightarrow> world" where
  "sync_repositories env w =
     (case read_index env w of
        (entries, w1) \<Rightarrow>
          if entries = [] then say MsgNoIndex w1
          else
            (case sync_entries env entries (say (MsgSyncing (length entries)) w1) of
               (entries', w2) \<Rightarrow> say MsgSyncComplete (write_index env entries' w2)))"

section \<open>Remote Enumerator\<close>

text \<open>
  The inner loop of \<^verbatim>\<open>fetch_github_repos\<close> over the two request URLs of a page: the
  data of the first answer with status 200, nothing when neither gave one, or the
  exception that leaves the loop (an \<^verbatim>\<open>HTTPError\<close> other than 404, or anything else).
\<close>

datatype page_result = PageData "repo_data list" | PageMissing | PageRaised exn

fun open_first :: "env \<Rightarrow> api list \<Rightarrow> world \<Rightarrow> page_result \<times> world" where
  "open_first env [] w = (PageMissing, w)"
| "open_first env (u # us) w =
     (case urlopen env (time w) u of
        Ok200 d \<Rightarrow> (PageData d, emit (Fetched u) w)
      | Status s \<Rightarrow> open_first env us (emit (Fetched u) w)
      | HttpError c \<Rightarrow>
          if c = 404 then open_first env us (emit (Fetched u) w)
          else (PageRaised (HTTPError c), emit (Fetched u) w)
      | Failure \<Rightarrow> (PageRaised OSError, emit (Fetched u) w))"

text \<open>
  The \<^verbatim>\<open>while True\<close> loop. It has no bound of its own: the result is \<open>None\<close> when
  the loop never ends.
\<close>

partial_function (option) fetch_pages ::
  "env \<Rightarrow> string \<Rightarrow> nat \<Rightarrow> repo_data list \<Rightarrow> world \<Rightarrow> ((exn + repo_data list) \<times> world) option"
where
  "fetch_pages env org_user page repos w =
     (case open_first env [OrgsRepos org_user page 100, UsersRepos org_user page 100] w of
        (PageData d, w1) \<Rightarrow>
          if d = [] then Some (Inr repos, w1)
          else fetch_pages env org_user (page + 1) (repos @ d) (emit (Slept 1) w1)
      | (PageMissing, w1) \<Rightarrow>
          Some (Inl (RuntimeError ''Failed to fetch repositories''
                      (Some (ValueError ''Organization or user not found'' None))), w1)
      | (PageRaised e, w1) \<Rightarrow>
          (case e of
             HTTPError c \<Rightarrow>
               if c = 403
               then fetch_pages env org_user page repos
                      (emit (Slept 600) (say MsgRateLimited w1))
               else Some (Inl (RuntimeError ''GitHub API error'' (Some e)), w1)
           | _ \<Rightarrow> Some (Inl (RuntimeError ''Failed to fetch repositories'' (Some e)), w1)))"

definition fetch_github_repos ::
  "env \<Rightarrow> string \<Rightarrow> string \<Rightarrow> world \<Rightarrow> ((exn + repo_data list) \<times> world) option" where
  "fetch_github_repos env h org_user w =
     (if h \<noteq> ''github.com''
      then Some (Inl (ValueError ''API fetching only supported for GitHub'' None), w)
      else fetch_pages env org_user 1 [] w)"

section \<open>Bulk clone\<close>

text \<open>
  The \<^verbatim>\<open>for\<close> loop of \<^verbatim>\<open>clone_org_user_repos\<close> with its two counters.
  \<^verbatim>\<open>clone_repository\<close> catches every exception itself, so the \<^verbatim>\<open>except\<close> branch of the
  loop body is never entered.
\<close>

fun clone_each ::
  "env \<Rightarrow> string \<Rightarrow> string option \<Rightarrow> repo_data list \<Rightarrow> nat \<Rightarrow> nat \<Rightarrow> world \<Rightarrow> nat \<times> nat \<times> world" where
  "clone_each env org_user b [] cloned_count skipped_count w = (cloned_count, skipped_count, w)"
| "clone_each env org_user b (r # rs) cloned_count skipped_count w =
     (let w1 = say (MsgCloning org_user (name r)) w;
          w2 = (case description r of
                  None \<Rightarrow> w1
                | Some d \<Rightarrow> if d = [] then w1 else say (MsgDescription d) w1)
      in case clone_repository env (clone_url r) b w2 of
           (success, w3) \<Rightarrow>
             if success then clone_each env org_user b rs (cloned_count + 1) skipped_count w3
             else clone_each env org_user b rs cloned_count (skipped_count + 1) w3)"

definition filter_forks :: "bool \<Rightarrow> repo_data list \<Rightarrow> world \<Rightarrow> repo_data list \<times> world" where
  "filter_forks include_forks repos w =
     (if \<not> include_forks
      then (let kept = filter (\<lambda>r. \<not> fork r) repos
            in (kept, if length kept < length repos
                      then say (MsgFilteredForks (length repos - length kept)) w else w))
      else (repos, w))"

definition clone_org_user_repos ::
  "env \<Rightarrow> string \<Rightarrow> string option \<Rightarrow> bool \<Rightarrow> world \<Rightarrow> (nat \<times> world) option" where
  "clone_org_user_repos env u b include_forks w =
     (case parse_org_user_url env u of
        Inl e \<Rightarrow> Some (0, say (MsgBulkError e) w)
      | Inr (h, org_user) \<Rightarrow>
          (case fetch_github_repos env h org_user (say (MsgFetching org_user h) w) of
             None \<Rightarrow> None
           | Some (Inl e, w1) \<Rightarrow> Some (0, say (MsgBulkError e) w1)
           | Some (Inr repos, w1) \<Rightarrow>
               if repos = [] then Some (0, say (MsgNoRepos org_user) w1)
               else
                 (case filter_forks include_forks repos w1 of
                    (kept, w2) \<Rightarrow>
                      (case clone_each env org_user b kept 0 0
                              (say (MsgFoundToClone (length kept)) w2) of
                         (cloned_count, skipped_count, w3) \<Rightarrow>
                           Some (cloned_count,
                                 say (MsgSkippedCount skipped_count)
                                   (say (MsgClonedCount cloned_count)
                                     (say MsgBulkComplete w3)))))))"

section \<open>Notions used in the statements\<close>

text \<open>
  A component of a repository URL (host, organisation, repository): not empty, of
  printable ASCII characters, none of them a delimiter of URL parts.
\<close>

definition url_name :: "string \<Rightarrow> bool" where
  "url_name s =
     (s \<noteq> [] \<and> (\<forall>c \<in> set s. c \<notin> set ''/?#;:@[]''
                      \<and> 32 < (of_char c :: nat) \<and> (of_char c :: nat) < 128))"

text \<open>
  An environment for the examples: the root is \<^verbatim>\<open>/tmp/r\<close>, paths are joined with a
  slash, no path exists, every subprocess succeeds and prints \<^verbatim>\<open>main\<close>, the API
  answers every request with an empty page, the index file can be read and written.
\<close>

definition env0 :: env where
  "env0 = \<lparr>base_dir = ''/tmp/r'', joinpath = (\<lambda>p s. p @ ''/'' @ s), netloc_ok = (\<lambda>n. False),
     path_exists = (\<lambda>t p. False), mkdir_parent = (\<lambda>t p. True),
     run = (\<lambda>t argv cwd. Inr ''main''), urlopen = (\<lambda>t a. Ok200 []),
     now = (\<lambda>t. ''2024-01-01T00:00:00''), can_read = (\<lambda>t. True), can_write = (\<lambda>t. True)\<rparr>"

text \<open>
  The records an index file holds, in order: those of its JSON lines. \<open>stored w\<close> is
  the index of the state \<open>w\<close>, empty when there is no file.
\<close>

definition records :: "line list \<Rightarrow> entry list" where
  "records ls = concat (map (\<lambda>l. case l of Json e \<Rightarrow> [e] | _ \<Rightarrow> []) ls)"

definition stored :: "world \<Rightarrow> entry list" where
  "stored w = (case index_file w of None \<Rightarrow> [] | Some ls \<Rightarrow> records ls)"

text \<open>The events of a run from the state \<open>w\<close> to the state \<open>w'\<close>.\<close>

definition since :: "world \<Rightarrow> world \<Rightarrow> event list" where
  "since w w' = drop (time w) (trace w')"

text \<open>A record for the examples, with the given URL, path and branch.\<close>

definition entry0 :: "string \<Rightarrow> string \<Rightarrow> string \<Rightarrow> entry" where
  "entry0 u p b = \<lparr>url = u, local_path = p, host = ''example.com'', org = ''acme'',
     repo = ''widget'', branch = b, last_hash = ''0123456789abcdef'',
     last_pull = ''2024-01-01T00:00:00''\<rparr>"

text \<open>An event is an invocation of the VCS clone operation.\<close>

definition is_clone :: "event \<Rightarrow> bool" where
  "is_clone ev = (case ev of Ran argv cwd \<Rightarrow> take 2 argv = [''git'', ''clone''] | _ \<Rightarrow> False)"

text \<open>
  What a turn of the sync loop may do: print, or run a command other than a clone in a
  directory that exists at some time of the run.
\<close>

definition sync_event :: "env \<Rightarrow> event \<Rightarrow> bool" where
  "sync_event env ev =
     (case ev of
        Printed m \<Rightarrow> True
      | Ran argv cwd \<Rightarrow>
          take 2 argv \<noteq> [''git'', ''clone''] \<and> (\<exists>t p. cwd = Some p \<and> path_exists env t p)
      | _ \<Rightarrow> False)"

text \<open>
  For the examples: the state before a first run, and a descriptor with the given name,
  clone URL and fork flag.
\<close>

definition world0 :: world where
  "world0 = \<lparr>index_file = None, trace = []\<rparr>"

definition repo0 :: "string \<Rightarrow> string \<Rightarrow> bool \<Rightarrow> repo_data" where
  "repo0 n u f = \<lparr>name = n, clone_url = u, ssh_url = '''', default_branch = ''main'',
     description = None, private_flag = False, fork = f\<rparr>"

section \<open>Properties of the URL Parser\<close>


lemma split_char_nonempty: "split_char c s \<noteq> []"
  by (induction s) (auto split: list.splits)

lemma split_char_no_sep: "c \<notin> set s \<Longrightarrow> split_char c s = [s]"
  by (induction s) auto

lemma split_char_append: "c \<notin> set a \<Longrightarrow> split_char c (a @ c # b) = a # split_char c b"
  by (induction a) (auto split: list.splits)

lemma length_split_char: "length (split_char c s) = Suc (count_list s c)"
  by (induction s) (auto split: list.splits)

lemma strip_char_slashes: "set s \<subseteq> {c} \<Longrightarrow> strip_char c s = []"
proof -
  assume a: "set s \<subseteq> {c}"
  then have h: "dropWhile (\<lambda>x. x = c) s = []" by (auto simp: dropWhile_eq_Nil_conv)
  show ?thesis unfolding strip_char_def h by simp
qed

lemma strip_char_core:
  assumes "set l \<subseteq> {c}" "set r \<subseteq> {c}" "m \<noteq> []" "hd m \<noteq> c" "last m \<noteq> c"
  shows "strip_char c (l @ m @ r) = m"
proof -
  from assms have 1: "dropWhile (\<lambda>x. x = c) (l @ m @ r) = m @ r"
    by (cases m) (auto simp: dropWhile_append)
  from assms have 2: "dropWhile (\<lambda>x. x = c) (rev r @ rev m) = rev m"
    by (cases m rule: rev_cases) (auto simp: dropWhile_append)
  show ?thesis by (simp add: strip_char_def 1 2)
qed

lemma endswith_iff: "endswith s p \<longleftrightarrow> (\<exists>q. s = q @ p)"
proof
  assume "endswith s p"
  then have "s = take (length s - length p) s @ p"
    by (metis append_take_drop_id endswith_def)
  then show "\<exists>q. s = q @ p" ..
next
  assume "\<exists>q. s = q @ p"
  then show "endswith s p" by (auto simp: endswith_def)
qed

lemma endswith_after_sep:
  assumes "c \<notin> set p" shows "endswith (a @ c # b) p \<longleftrightarrow> endswith b p"
proof
  assume "endswith (a @ c # b) p"
  then obtain q where q: "a @ c # b = q @ p" by (auto simp: endswith_iff)
  then show "endswith b p" using assms
    by (auto simp: endswith_iff append_eq_append_conv2 append_eq_Cons_conv Cons_eq_append_conv)
next
  assume "endswith b p"
  then obtain q where "b = q @ p" by (auto simp: endswith_iff)
  then have "a @ c # b = (a @ c # q) @ p" by simp
  then show "endswith (a @ c # b) p" unfolding endswith_iff by blast
qed

lemma strip_git_suffix: "strip_git (s @ ''.git'') = s"
  by (simp add: strip_git_def endswith_def)



lemma split_scheme_https: "split_scheme (''https://'' @ x) = (''https'', ''//'' @ x)"
proof -
  have a: "takeWhile (\<lambda>c. c \<noteq> CHR '':'') (''https://'' @ x) = ''https''" by simp
  have b: "CHR '':'' \<in> set (''https://'' @ x)" by simp
  have c: "ascii_alpha CHR ''h''" by code_simp
  have d: "list_all (\<lambda>c. c \<in> set scheme_chars) ''https''" by code_simp
  have e: "map lower_char ''https'' = ''https''" by code_simp
  show ?thesis unfolding split_scheme_def Let_def a using b c d e by simp
qed

lemma no_ctl: "32 < (of_char c :: nat) \<Longrightarrow> c \<notin> {CHR 0x09, CHR 0x0D, CHR 0x0A}"
  by auto

lemma urlparse_https:
  assumes h: "\<forall>c \<in> set h. c \<notin> set ''/?#[]'' \<and> 32 < (of_char c :: nat) \<and> (of_char c :: nat) < 128"
    and p: "\<forall>c \<in> set p. c \<notin> set ''?#;'' \<and> 32 < (of_char c :: nat)"
  shows "urlparse env (''https://'' @ h @ ''/'' @ p) = Inr (h, ''/'' @ p)"
proof -
  let ?u = "''https://'' @ h @ ''/'' @ p"
  have hc: "\<forall>c \<in> set h. c \<notin> {CHR 0x09, CHR 0x0D, CHR 0x0A}"
    using h no_ctl by blast
  have pc: "\<forall>c \<in> set p. c \<notin> {CHR 0x09, CHR 0x0D, CHR 0x0A}"
    using p no_ctl by blast
  have 1: "filter (\<lambda>c. c \<notin> {CHR 0x09, CHR 0x0D, CHR 0x0A}) (dropWhile (\<lambda>c. (of_char c :: nat) \<le> 32) ?u) = ?u"
    using hc pc by (simp add: filter_id_conv)
  have 2: "split_scheme ?u = (''https'', ''//'' @ h @ ''/'' @ p)"
    by (rule split_scheme_https)
  have hd: "\<forall>c \<in> set h. c \<notin> set ''/?#''" using h by simp
  have 3: "splitnetloc (''//'' @ h @ ''/'' @ p) = (h, ''/'' @ p)"
    using hd by (simp add: splitnetloc_def takeWhile_append2 dropWhile_append2)
  have 4: "CHR ''['' \<notin> set h" "CHR '']'' \<notin> set h" "list_all (\<lambda>c. (of_char c :: nat) < 128) h"
    using h by (simp_all add: list_all_iff) blast+
  have f5: "takeWhile (\<lambda>c. c \<noteq> CHR ''#'') (''/'' @ p) = ''/'' @ p"
    using p by (simp add: takeWhile_eq_all_conv)
  have g5: "takeWhile (\<lambda>c. c \<noteq> CHR ''?'') (''/'' @ p) = ''/'' @ p"
    using p by (simp add: takeWhile_eq_all_conv)
  have 6: "CHR '';'' \<notin> set (''/'' @ p)" using p by simp blast
  show ?thesis
    unfolding urlparse_def 1 2 Let_def prod.case 3 f5 g5 using 4 6 by simp
qed

lemma endswith_slash: "endswith s ''/'' \<longleftrightarrow> s \<noteq> [] \<and> last s = CHR ''/''"
  by (cases s rule: rev_cases) (auto simp: endswith_def)

lemma org_path_core:
  assumes "set l \<subseteq> {CHR ''/''}" "set r \<subseteq> {CHR ''/''}" "m \<noteq> []" "hd m \<noteq> CHR ''/''" "last m \<noteq> CHR ''/''"
  shows "org_path (l @ m @ r) = m"
  using assms by (simp add: org_path_def strip_char_core endswith_slash)

lemma org_path_slashes: "set p \<subseteq> {CHR ''/''} \<Longrightarrow> org_path p = []"
  by (simp add: org_path_def strip_char_slashes endswith_def)

lemma two_segments: "c \<notin> set a \<Longrightarrow> c \<notin> set b \<Longrightarrow> split_char c (a @ c # b) = [a, b]"
  by (simp add: split_char_append split_char_no_sep)

text \<open>
  Claim C8. Let \<^verbatim>\<open>urlparse\<close> give the URL the path \<open>p\<close>. If \<open>p\<close> is one non-empty
  segment (a string without a slash), possibly between leading and trailing slashes,
  \<^verbatim>\<open>is_org_user_url\<close> returns true; if \<open>p\<close> is two non-empty segments separated by a
  slash, it returns false; if \<open>p\<close> is empty or consists of slashes only (no segment),
  it returns false.
\<close>

theorem is_org_user_url_by_segments:
  assumes up: "urlparse env u = Inr (n, p)"
  shows "(\<forall>l s r. p = l @ s @ r \<and> set l \<subseteq> {CHR ''/''} \<and> set r \<subseteq> {CHR ''/''}
              \<and> s \<noteq> [] \<and> CHR ''/'' \<notin> set s \<longrightarrow> is_org_user_url env u)
       \<and> (\<forall>l s1 s2 r. p = l @ s1 @ ''/'' @ s2 @ r \<and> set l \<subseteq> {CHR ''/''} \<and> set r \<subseteq> {CHR ''/''}
              \<and> s1 \<noteq> [] \<and> s2 \<noteq> [] \<and> CHR ''/'' \<notin> set s1 \<and> CHR ''/'' \<notin> set s2
              \<longrightarrow> \<not> is_org_user_url env u)
       \<and> (set p \<subseteq> {CHR ''/''} \<longrightarrow> \<not> is_org_user_url env u)"
proof (intro conjI allI impI)
  fix l s r
  assume a: "p = l @ s @ r \<and> set l \<subseteq> {CHR ''/''} \<and> set r \<subseteq> {CHR ''/''} \<and> s \<noteq> [] \<and> CHR ''/'' \<notin> set s"
  then have "hd s \<noteq> CHR ''/''" "last s \<noteq> CHR ''/''"
    by (metis hd_in_set, metis last_in_set)
  with a have "org_path p = s" by (simp add: org_path_core)
  with a up show "is_org_user_url env u"
    by (simp add: is_org_user_url_def split_char_no_sep)
next
  fix l s1 s2 r
  assume a: "p = l @ s1 @ ''/'' @ s2 @ r \<and> set l \<subseteq> {CHR ''/''} \<and> set r \<subseteq> {CHR ''/''}
              \<and> s1 \<noteq> [] \<and> s2 \<noteq> [] \<and> CHR ''/'' \<notin> set s1 \<and> CHR ''/'' \<notin> set s2"
  let ?m = "s1 @ CHR ''/'' # s2"
  from a have "hd s1 \<noteq> CHR ''/''" "last s2 \<noteq> CHR ''/''"
    by (metis hd_in_set, metis last_in_set)
  with a have m: "?m \<noteq> []" "hd ?m \<noteq> CHR ''/''" "last ?m \<noteq> CHR ''/''" by simp_all
  from a have pm: "p = l @ ?m @ r" by simp
  from a m have "org_path (l @ ?m @ r) = ?m" by (intro org_path_core) simp_all
  with pm have "org_path p = ?m" by simp
  with a up show "\<not> is_org_user_url env u"
    by (simp add: is_org_user_url_def two_segments)
next
  assume "set p \<subseteq> {CHR ''/''}"
  then have "org_path p = []" by (rule org_path_slashes)
  with up show "\<not> is_org_user_url env u"
    by (simp add: is_org_user_url_def)
qed

text \<open>
  The three cases of C8 on URLs of the program's help text: an organisation page, a
  repository page and a bare host.
\<close>

theorem is_org_user_url_by_segments_witness:
  "is_org_user_url env0 ''https://github.com/acme/''
   \<and> \<not> is_org_user_url env0 ''https://github.com/acme/widget''
   \<and> \<not> is_org_user_url env0 ''https://github.com''"
proof -
  have 1: "urlparse env0 ''https://github.com/acme/'' = Inr (''github.com'', ''/acme/'')"
    by code_simp
  have 2: "urlparse env0 ''https://github.com/acme/widget'' = Inr (''github.com'', ''/acme/widget'')"
    by code_simp
  have 3: "urlparse env0 ''https://github.com'' = Inr (''github.com'', '''')"
    by code_simp
  have a: "''/acme/'' = ''/'' @ ''acme'' @ ''/'' \<and> set ''/'' \<subseteq> {CHR ''/''} \<and> set ''/'' \<subseteq> {CHR ''/''}
      \<and> ''acme'' \<noteq> [] \<and> CHR ''/'' \<notin> set ''acme''" by simp
  have b: "''/acme/widget'' = ''/'' @ ''acme'' @ ''/'' @ ''widget'' @ '''' \<and> set ''/'' \<subseteq> {CHR ''/''}
      \<and> set '''' \<subseteq> {CHR ''/''} \<and> ''acme'' \<noteq> [] \<and> ''widget'' \<noteq> []
      \<and> CHR ''/'' \<notin> set ''acme'' \<and> CHR ''/'' \<notin> set ''widget''" by simp
  have c: "set '''' \<subseteq> {CHR ''/''}" by simp
  from is_org_user_url_by_segments [OF 1] a
  have "is_org_user_url env0 ''https://github.com/acme/''" by blast
  moreover from is_org_user_url_by_segments [OF 2] b
  have "\<not> is_org_user_url env0 ''https://github.com/acme/widget''" by blast
  moreover from is_org_user_url_by_segments [OF 3] c
  have "\<not> is_org_user_url env0 ''https://github.com''" by blast
  ultimately show ?thesis by blast
qed

lemma ssh_parts:
  assumes "CHR '':'' \<notin> set h" "CHR '':'' \<notin> set p"
  shows "split_char CHR '':'' (''git@'' @ h @ '':'' @ p) = [''git@'' @ h, p]"
proof -
  have "CHR '':'' \<notin> set (''git@'' @ h)" using assms by simp
  then have "split_char CHR '':'' ((''git@'' @ h) @ CHR '':'' # p) = [''git@'' @ h, p]"
    using assms(2) by (rule two_segments)
  then show ?thesis by simp
qed

lemma ssh_host: "CHR ''@'' \<notin> set h \<Longrightarrow> split_char CHR ''@'' (''git@'' @ h) = [''git'', h]"
  using two_segments [of "CHR ''@''" "''git''" h] by simp

lemma parse_ssh:
  assumes "CHR '':'' \<notin> set h" "CHR ''@'' \<notin> set h" "CHR '':'' \<notin> set p"
  shows "parse_git_url env (''git@'' @ h @ '':'' @ p) =
     (if length (split_char CHR ''/'' (strip_git p)) \<noteq> 2
      then Inl (ValueError ''Invalid SSH git URL format'' None)
      else Inr (h, split_char CHR ''/'' (strip_git p) ! 0, split_char CHR ''/'' (strip_git p) ! 1))"
proof -
  have s: "startswith (''git@'' @ h @ '':'' @ p) ''git@''" by (simp add: startswith_def)
  show ?thesis
    unfolding parse_git_url_def Let_def ssh_parts [OF assms(1,3)]
    using s assms(2) by (simp add: split_char_no_sep)
qed

lemma parse_https:
  assumes "urlparse env u = Inr (n, p)" "\<not> startswith u ''git@''"
  shows "parse_git_url env u =
     (if length (split_char CHR ''/'' (strip_git (strip_char CHR ''/'' p))) \<noteq> 2
      then Inl (ValueError ''Failed to parse git URL'' (Some (ValueError ''Invalid git URL format'' None)))
      else Inr (n, split_char CHR ''/'' (strip_git (strip_char CHR ''/'' p)) ! 0,
                split_char CHR ''/'' (strip_git (strip_char CHR ''/'' p)) ! 1))"
  using assms by (simp add: parse_git_url_def Let_def)

lemma strip_git_two:
  "strip_git (a @ ''/'' @ b @ ''.git'') = a @ ''/'' @ b"
  using strip_git_suffix [of "a @ ''/'' @ b"] by simp

lemma strip_git_keep:
  assumes "\<not> endswith b ''.git''" shows "strip_git (a @ ''/'' @ b) = a @ ''/'' @ b"
proof -
  have "CHR ''/'' \<notin> set ''.git''" by simp
  then have "endswith (a @ CHR ''/'' # b) ''.git'' \<longleftrightarrow> endswith b ''.git''"
    by (rule endswith_after_sep)
  with assms show ?thesis by (simp add: strip_git_def)
qed

lemma url_name_D:
  assumes "url_name s"
  shows "s \<noteq> []" "CHR ''/'' \<notin> set s" "CHR '':'' \<notin> set s" "CHR ''@'' \<notin> set s"
    "hd s \<noteq> CHR ''/''" "last s \<noteq> CHR ''/''"
    "\<forall>c \<in> set s. c \<notin> set ''/?#[]'' \<and> 32 < (of_char c :: nat) \<and> (of_char c :: nat) < 128"
    "\<forall>c \<in> set s. c \<notin> set ''?#;'' \<and> 32 < (of_char c :: nat)"
proof -
  from assms show ne: "s \<noteq> []" by (simp add: url_name_def)
  from assms show 1: "CHR ''/'' \<notin> set s" by (simp add: url_name_def) blast
  from assms show "CHR '':'' \<notin> set s" by (simp add: url_name_def) blast
  from assms show "CHR ''@'' \<notin> set s" by (simp add: url_name_def) blast
  from ne 1 show "hd s \<noteq> CHR ''/''" by (metis hd_in_set)
  from ne 1 show "last s \<noteq> CHR ''/''" by (metis last_in_set)
  from assms show "\<forall>c \<in> set s. c \<notin> set ''/?#[]'' \<and> 32 < (of_char c :: nat) \<and> (of_char c :: nat) < 128"
    by (simp add: url_name_def)
  from assms show "\<forall>c \<in> set s. c \<notin> set ''?#;'' \<and> 32 < (of_char c :: nat)"
    by (simp add: url_name_def)
qed

lemma strip_git_form:
  assumes "sfx = ''.git'' \<or> (sfx = [] \<and> \<not> endswith b ''.git'')"
  shows "strip_git (a @ ''/'' @ b @ sfx) = a @ ''/'' @ b"
  using assms strip_git_two [of a b] strip_git_keep [of b a] by auto

lemma https_form:
  assumes h: "url_name h" and og: "url_name og" and rp: "url_name rp"
    and sfx: "sfx = ''.git'' \<or> (sfx = [] \<and> \<not> endswith rp ''.git'')"
  shows "parse_git_url env (''https://'' @ h @ ''/'' @ og @ ''/'' @ rp @ sfx) = Inr (h, og, rp)"
proof -
  let ?p = "og @ ''/'' @ rp @ sfx"
  have sc: "\<forall>c \<in> set sfx. c \<notin> set ''?#;'' \<and> 32 < (of_char c :: nat)"
    using sfx by auto
  have pc: "\<forall>c \<in> set ?p. c \<notin> set ''?#;'' \<and> 32 < (of_char c :: nat)"
    using url_name_D(8) [OF og] url_name_D(8) [OF rp] sc by (simp add: ball_Un)
  have up: "urlparse env (''https://'' @ h @ ''/'' @ ?p) = Inr (h, ''/'' @ ?p)"
    using url_name_D(7) [OF h] pc by (rule urlparse_https)
  have ns: "\<not> startswith (''https://'' @ h @ ''/'' @ ?p) ''git@''"
    by (simp add: startswith_def)
  have ne: "?p \<noteq> []" using url_name_D(1) [OF og] by simp
  have hdp: "hd ?p \<noteq> CHR ''/''" using url_name_D(1,5) [OF og] by simp
  have lastp: "last ?p \<noteq> CHR ''/''"
    using url_name_D(1,6) [OF rp] sfx by auto
  have "strip_char CHR ''/'' (''/'' @ ?p @ []) = ?p"
    using ne hdp lastp by (intro strip_char_core) simp_all
  then have st: "strip_char CHR ''/'' (''/'' @ ?p) = ?p" by simp
  have sg: "strip_git ?p = og @ ''/'' @ rp" using sfx by (rule strip_git_form)
  have seg: "split_char CHR ''/'' (og @ ''/'' @ rp) = [og, rp]"
    using two_segments [OF url_name_D(2) [OF og] url_name_D(2) [OF rp]] by simp
  show ?thesis
    unfolding parse_https [OF up ns] st sg seg by simp
qed

lemma ssh_form:
  assumes h: "url_name h" and og: "url_name og" and rp: "url_name rp"
    and sfx: "sfx = ''.git'' \<or> (sfx = [] \<and> \<not> endswith rp ''.git'')"
  shows "parse_git_url env (''git@'' @ h @ '':'' @ og @ ''/'' @ rp @ sfx) = Inr (h, og, rp)"
proof -
  let ?p = "og @ ''/'' @ rp @ sfx"
  have pc: "CHR '':'' \<notin> set ?p"
    using url_name_D(3) [OF og] url_name_D(3) [OF rp] sfx by auto
  have sg: "strip_git ?p = og @ ''/'' @ rp" using sfx by (rule strip_git_form)
  have seg: "split_char CHR ''/'' (og @ ''/'' @ rp) = [og, rp]"
    using two_segments [OF url_name_D(2) [OF og] url_name_D(2) [OF rp]] by simp
  show ?thesis
    unfolding parse_ssh [OF url_name_D(3) [OF h] url_name_D(4) [OF h] pc] sg seg by simp
qed

text \<open>
  Claim C5, for the SSH form the code recognises (the literal prefix \<^verbatim>\<open>git@\<close>). For
  all URL components \<open>h\<close>, \<open>og\<close>, \<open>rp\<close>: each of the URLs
  \<^verbatim>\<open>https://h/og/rp.git\<close> and \<^verbatim>\<open>git@h:og/rp.git\<close>, and without \<^verbatim>\<open>.git\<close> when \<open>rp\<close> does
  not itself end in \<^verbatim>\<open>.git\<close>, parses to exactly \<open>(h, og, rp)\<close>, and resolving the parsed
  components gives the path \<^verbatim>\<open>base_dir / h / og / rp\<close>. A path with a number of
  slashes other than one (after the \<^verbatim>\<open>.git\<close> suffix is removed), that is, with a segment
  count other than two, makes the parse fail with a \<^verbatim>\<open>ValueError\<close>, in the SSH branch and
  in the \<^verbatim>\<open>urlparse\<close> branch.
\<close>

theorem parse_git_url_two_segments:
  assumes h: "url_name h" and og: "url_name og" and rp: "url_name rp"
  shows
   "(\<forall>sfx \<in> (if endswith rp ''.git'' then {''.git''} else {''.git'', ''''}).
      \<forall>u \<in> {''https://'' @ h @ ''/'' @ og @ ''/'' @ rp @ sfx,
              ''git@'' @ h @ '':'' @ og @ ''/'' @ rp @ sfx}.
        parse_git_url env u = Inr (h, og, rp)
        \<and> map_sum id (\<lambda>(a, b, c). get_local_path env a b c) (parse_git_url env u)
            = Inr (joinpath env (joinpath env (joinpath env (base_dir env) h) og) rp))
    \<and> (\<forall>p. CHR '':'' \<notin> set p \<and> count_list (strip_git p) CHR ''/'' \<noteq> 1
          \<longrightarrow> (\<exists>m c. parse_git_url env (''git@'' @ h @ '':'' @ p) = Inl (ValueError m c)))
    \<and> (\<forall>u n p. \<not> startswith u ''git@'' \<and> urlparse env u = Inr (n, p)
             \<and> count_list (strip_git (strip_char CHR ''/'' p)) CHR ''/'' \<noteq> 1
          \<longrightarrow> (\<exists>m c. parse_git_url env u = Inl (ValueError m c)))"
proof (intro conjI ballI allI impI)
  fix sfx u
  assume s: "sfx \<in> (if endswith rp ''.git'' then {''.git''} else {''.git'', ''''})"
    and u: "u \<in> {''https://'' @ h @ ''/'' @ og @ ''/'' @ rp @ sfx,
                  ''git@'' @ h @ '':'' @ og @ ''/'' @ rp @ sfx}"
  from s have sfx: "sfx = ''.git'' \<or> (sfx = [] \<and> \<not> endswith rp ''.git'')"
    by (auto split: if_splits)
  from u https_form [OF h og rp sfx] ssh_form [OF h og rp sfx]
  show pu: "parse_git_url env u = Inr (h, og, rp)" by auto
  show "map_sum id (\<lambda>(a, b, c). get_local_path env a b c) (parse_git_url env u)
            = Inr (joinpath env (joinpath env (joinpath env (base_dir env) h) og) rp)"
    unfolding pu by (simp add: get_local_path_def)
next
  fix p
  assume a: "CHR '':'' \<notin> set p \<and> count_list (strip_git p) CHR ''/'' \<noteq> 1"
  then have "length (split_char CHR ''/'' (strip_git p)) \<noteq> 2"
    by (simp add: length_split_char)
  with a show "\<exists>m c. parse_git_url env (''git@'' @ h @ '':'' @ p) = Inl (ValueError m c)"
    using parse_ssh [OF url_name_D(3) [OF h] url_name_D(4) [OF h], of p env] by simp
next
  fix u n p
  assume a: "\<not> startswith u ''git@'' \<and> urlparse env u = Inr (n, p)
             \<and> count_list (strip_git (strip_char CHR ''/'' p)) CHR ''/'' \<noteq> 1"
  then have "length (split_char CHR ''/'' (strip_git (strip_char CHR ''/'' p))) \<noteq> 2"
    by (simp add: length_split_char)
  with a show "\<exists>m c. parse_git_url env u = Inl (ValueError m c)"
    using parse_https [of env u n p] by simp
qed

text \<open>
  The theorem at \<^verbatim>\<open>host.example\<close>, \<^verbatim>\<open>team\<close>, \<^verbatim>\<open>proj\<close> (scenario C of the specification),
  with the root \<^verbatim>\<open>/tmp/r\<close>, and at a path of three segments.
\<close>

theorem parse_git_url_two_segments_witness:
  "url_name ''host.example'' \<and> url_name ''team'' \<and> url_name ''proj''
   \<and> parse_git_url env0 ''git@host.example:team/proj.git'' = Inr (''host.example'', ''team'', ''proj'')
   \<and> parse_git_url env0 ''https://host.example/team/proj'' = Inr (''host.example'', ''team'', ''proj'')
   \<and> map_sum id (\<lambda>(a, b, c). get_local_path env0 a b c)
        (parse_git_url env0 ''https://host.example/team/proj.git'') = Inr ''/tmp/r/host.example/team/proj''
   \<and> (\<exists>m c. parse_git_url env0 ''git@host.example:team/proj/extra'' = Inl (ValueError m c))"
proof -
  have n: "url_name ''host.example''" "url_name ''team''" "url_name ''proj''"
    by (simp_all add: url_name_def)
  have e: "\<not> endswith ''proj'' ''.git''" by (simp add: endswith_def)
  have c: "CHR '':'' \<notin> set ''team/proj/extra'' \<and> count_list (strip_git ''team/proj/extra'') CHR ''/'' \<noteq> 1"
    by (simp add: strip_git_def endswith_def)
  note A = parse_git_url_two_segments [OF n, of env0, THEN conjunct1, rule_format]
  note B = parse_git_url_two_segments [OF n, of env0, THEN conjunct2, THEN conjunct1, rule_format]
  have 1: "parse_git_url env0 ''git@host.example:team/proj.git'' = Inr (''host.example'', ''team'', ''proj'')"
    using A [of "''.git''" "''git@host.example:team/proj.git''"] e by simp
  have 2: "parse_git_url env0 ''https://host.example/team/proj'' = Inr (''host.example'', ''team'', ''proj'')"
    using A [of "''''" "''https://host.example/team/proj''"] e by simp
  have "map_sum id (\<lambda>(a, b, c). get_local_path env0 a b c)
        (parse_git_url env0 ''https://host.example/team/proj.git'')
      = Inr (joinpath env0 (joinpath env0 (joinpath env0 (base_dir env0) ''host.example'') ''team'') ''proj'')"
    using A [of "''.git''" "''https://host.example/team/proj.git''"] e
    by (simp add: get_local_path_def)
  then have 3: "map_sum id (\<lambda>(a, b, c). get_local_path env0 a b c)
        (parse_git_url env0 ''https://host.example/team/proj.git'') = Inr ''/tmp/r/host.example/team/proj''"
    by (simp add: env0_def)
  have 4: "\<exists>m c. parse_git_url env0 ''git@host.example:team/proj/extra'' = Inl (ValueError m c)"
    using B [of "''team/proj/extra''"] c by simp
  from n 1 2 3 4 show ?thesis by (intro conjI)
qed

text \<open>
  Claim C5 as stated fails for an SSH URL whose user is not \<^verbatim>\<open>git\<close>: the URL does not
  start with \<^verbatim>\<open>git@\<close>, goes through \<^verbatim>\<open>urlparse\<close>, which finds no scheme and no netloc,
  and the parse succeeds with an empty host and the organisation
  \<^verbatim>\<open>alice@host.example:team\<close>.
\<close>

theorem parse_git_url_ssh_user_counterexample:
  "parse_git_url env0 ''alice@host.example:team/proj.git'' = Inr ('''', ''alice@host.example:team'', ''proj'')
   \<and> parse_git_url env0 ''alice@host.example:team/proj.git'' \<noteq> Inr (''host.example'', ''team'', ''proj'')"
  by code_simp

section \<open>Properties of the Repository Index\<close>


lemma time_say [simp]: "time (say m w) = Suc (time w)"
  by (simp add: say_def emit_def time_def)

lemma time_emit [simp]: "time (emit ev w) = Suc (time w)"
  by (simp add: emit_def time_def)

lemma trace_say [simp]: "trace (say m w) = trace w @ [Printed m]"
  by (simp add: say_def emit_def)

lemma trace_emit [simp]: "trace (emit ev w) = trace w @ [ev]"
  by (simp add: emit_def)

lemma index_file_say [simp]: "index_file (say m w) = index_file w"
  by (simp add: say_def emit_def)

lemma index_file_emit [simp]: "index_file (emit ev w) = index_file w"
  by (simp add: emit_def)

lemma stored_say [simp]: "stored (say m w) = stored w"
  by (simp add: stored_def)

lemma stored_emit [simp]: "stored (emit ev w) = stored w"
  by (simp add: stored_def)

lemma records_simps [simp]:
  "records [] = []" "records (Blank # ls) = records ls"
  "records (Json e # ls) = e # records ls" "records (Garbage # ls) = records ls"
  "records (map Json es) = es"
  by (simp_all add: records_def) (induction es, simp_all)

lemma read_lines_wellformed: "Garbage \<notin> set ls \<Longrightarrow> read_lines ls acc = Inr (acc @ records ls)"
  by (induction ls acc rule: read_lines.induct) simp_all

lemma read_lines_malformed: "Garbage \<in> set ls \<Longrightarrow> read_lines ls acc = Inl JSONDecodeError"
  by (induction ls acc rule: read_lines.induct) simp_all

lemma read_index_wellformed:
  assumes "case index_file w of None \<Rightarrow> True | Some ls \<Rightarrow> Garbage \<notin> set ls \<and> can_read env (time w)"
  shows "read_index env w = (stored w, w)"
  using assms by (simp add: read_index_def stored_def read_lines_wellformed split: option.splits)

lemma find_url_None: "find_url es u k = None \<longleftrightarrow> u \<notin> url ` set es"
  by (induction es arbitrary: k) auto

lemma find_url_Some:
  "find_url es u k = Some i \<Longrightarrow>
     k \<le> i \<and> i - k < length es \<and> url (es ! (i - k)) = u \<and> (\<forall>j < i - k. url (es ! j) \<noteq> u)"
proof (induction es arbitrary: k)
  case Nil
  then show ?case by simp
next
  case (Cons e es)
  show ?case
  proof (cases "url e = u")
    case True
    with Cons.prems show ?thesis by simp
  next
    case False
    with Cons.prems have "find_url es u (Suc k) = Some i" by simp
    from Cons.IH [OF this]
    have ih: "Suc k \<le> i" "i - Suc k < length es" "url (es ! (i - Suc k)) = u"
      "\<forall>j < i - Suc k. url (es ! j) \<noteq> u" by simp_all
    from ih(1) have eq: "i - k = Suc (i - Suc k)" by simp
    have "\<forall>j < i - k. url ((e # es) ! j) \<noteq> u"
    proof (intro allI impI)
      fix j assume "j < i - k"
      with eq ih(4) False show "url ((e # es) ! j) \<noteq> u" by (cases j) auto
    qed
    with ih eq show ?thesis by simp
  qed
qed

lemma upsert_present:
  assumes "url r \<in> url ` set es"
  shows "\<exists>i < length es. url (es ! i) = url r \<and> (\<forall>j < i. url (es ! j) \<noteq> url r)
            \<and> upsert es r = es[i := r]"
proof -
  from assms obtain i where i: "find_url es (url r) 0 = Some i"
    using find_url_None [of es "url r" 0] by (cases "find_url es (url r) 0") auto
  from find_url_Some [OF i] i show ?thesis by (auto simp: upsert_def)
qed

lemma upsert_absent: "url r \<notin> url ` set es \<Longrightarrow> upsert es r = es @ [r]"
  using find_url_None [of es "url r" 0] by (simp add: upsert_def)

lemma map_url_update:
  "i < length es \<Longrightarrow> url (es ! i) = url r \<Longrightarrow> map url (es[i := r]) = map url es"
  by (simp add: map_update list_update_same_conv)

lemma upsert_distinct: "distinct (map url es) \<Longrightarrow> distinct (map url (upsert es r))"
proof (cases "url r \<in> url ` set es")
  case True
  assume d: "distinct (map url es)"
  from upsert_present [OF True] obtain i where
    "i < length es" "url (es ! i) = url r" "upsert es r = es[i := r]" by blast
  with d show ?thesis by (simp add: map_url_update)
next
  case False
  assume "distinct (map url es)"
  with False show ?thesis by (simp add: upsert_absent)
qed

text \<open>
  Claim C1. Let the index file be absent, or readable with no malformed line, and let it
  be writable; \<open>stored w\<close> is the sequence of its records. After \<^verbatim>\<open>add_to_index\<close> of a record
  \<open>r\<close> the file holds exactly the lines of the new sequence, and
  \<^item> if a record with the URL of \<open>r\<close> was present, the first such record, at position \<open>i\<close>,
    is replaced by \<open>r\<close> and nothing else changes (the new sequence is the old one updated
    at \<open>i\<close>), so the sequence of URLs is the same as before;
  \<^item> if no record had the URL of \<open>r\<close>, the new sequence is the old one with \<open>r\<close> appended;
  \<^item> if the URLs were unique before, they are unique afterwards.
\<close>

theorem add_to_index_upsert:
  assumes rd: "case index_file w of None \<Rightarrow> True
               | Some ls \<Rightarrow> Garbage \<notin> set ls \<and> can_read env (time w)"
    and wr: "can_write env (time w)"
  shows "index_file (add_to_index env r w) = Some (map Json (stored (add_to_index env r w)))
     \<and> (url r \<in> url ` set (stored w) \<longrightarrow>
          (\<exists>i < length (stored w). url (stored w ! i) = url r
              \<and> (\<forall>j < i. url (stored w ! j) \<noteq> url r)
              \<and> stored (add_to_index env r w) = (stored w)[i := r])
          \<and> map url (stored (add_to_index env r w)) = map url (stored w))
     \<and> (url r \<notin> url ` set (stored w) \<longrightarrow> stored (add_to_index env r w) = stored w @ [r])
     \<and> (distinct (map url (stored w)) \<longrightarrow> distinct (map url (stored (add_to_index env r w))))"
proof -
  have a: "add_to_index env r w = write_index env (upsert (stored w) r) w"
    by (simp add: add_to_index_def read_index_wellformed [OF rd])
  have f: "index_file (add_to_index env r w) = Some (map Json (upsert (stored w) r))"
    using wr by (simp add: a write_index_def)
  then have s: "stored (add_to_index env r w) = upsert (stored w) r"
    by (simp add: stored_def)
  show ?thesis
  proof (intro conjI impI)
    show "index_file (add_to_index env r w) = Some (map Json (stored (add_to_index env r w)))"
      by (simp add: f s)
  next
    assume p: "url r \<in> url ` set (stored w)"
    from upsert_present [OF p] show "\<exists>i < length (stored w). url (stored w ! i) = url r
              \<and> (\<forall>j < i. url (stored w ! j) \<noteq> url r)
              \<and> stored (add_to_index env r w) = (stored w)[i := r]"
      by (simp add: s)
    from upsert_present [OF p] show "map url (stored (add_to_index env r w)) = map url (stored w)"
      by (auto simp: s map_url_update)
  next
    assume "url r \<notin> url ` set (stored w)"
    then show "stored (add_to_index env r w) = stored w @ [r]"
      by (simp add: s upsert_absent)
  next
    assume "distinct (map url (stored w))"
    then show "distinct (map url (stored (add_to_index env r w)))"
      by (simp add: s upsert_distinct)
  qed
qed

text \<open>
  The theorem on an index of two records and a blank line: a record with the URL of the
  first replaces it at position 0, a record with a new URL goes to the end.
\<close>

theorem add_to_index_upsert_witness:
  "stored (add_to_index env0 (entry0 ''u1'' ''/p1'' ''dev'')
       \<lparr>index_file = Some [Json (entry0 ''u1'' ''/p1'' ''main''), Blank, Json (entry0 ''u2'' ''/p2'' ''main'')],
        trace = []\<rparr>)
     = [entry0 ''u1'' ''/p1'' ''dev'', entry0 ''u2'' ''/p2'' ''main'']
   \<and> stored (add_to_index env0 (entry0 ''u3'' ''/p3'' ''main'')
       \<lparr>index_file = Some [Json (entry0 ''u1'' ''/p1'' ''main''), Blank, Json (entry0 ''u2'' ''/p2'' ''main'')],
        trace = []\<rparr>)
     = [entry0 ''u1'' ''/p1'' ''main'', entry0 ''u2'' ''/p2'' ''main'', entry0 ''u3'' ''/p3'' ''main'']"
proof -
  let ?w = "\<lparr>index_file = Some [Json (entry0 ''u1'' ''/p1'' ''main''), Blank, Json (entry0 ''u2'' ''/p2'' ''main'')],
        trace = []\<rparr>"
  have rd: "case index_file ?w of None \<Rightarrow> True
      | Some ls \<Rightarrow> Garbage \<notin> set ls \<and> can_read env0 (time ?w)"
    by (simp add: env0_def)
  have wr: "can_write env0 (time ?w)" by (simp add: env0_def)
  have sw: "stored ?w = [entry0 ''u1'' ''/p1'' ''main'', entry0 ''u2'' ''/p2'' ''main'']"
    by (simp add: stored_def)
  have u: "url (entry0 a p b) = a" for a p b by (simp add: entry0_def)
  note T = add_to_index_upsert [OF rd wr]
  have "url (entry0 ''u1'' ''/p1'' ''dev'') \<in> url ` set (stored ?w)" by (simp add: sw u)
  with T [of "entry0 ''u1'' ''/p1'' ''dev''"] obtain i where
    i: "i < length (stored ?w)" "url (stored ?w ! i) = url (entry0 ''u1'' ''/p1'' ''dev'')"
      "stored (add_to_index env0 (entry0 ''u1'' ''/p1'' ''dev'') ?w)
         = (stored ?w)[i := entry0 ''u1'' ''/p1'' ''dev'']" by blast
  from i(1,2) have "i = 0" by (cases i) (simp_all add: sw u)
  with i(3) have 1: "stored (add_to_index env0 (entry0 ''u1'' ''/p1'' ''dev'') ?w)
     = [entry0 ''u1'' ''/p1'' ''dev'', entry0 ''u2'' ''/p2'' ''main'']" by (simp add: sw)
  have "url (entry0 ''u3'' ''/p3'' ''main'') \<notin> url ` set (stored ?w)" by (simp add: sw u)
  with T [of "entry0 ''u3'' ''/p3'' ''main''"]
  have 2: "stored (add_to_index env0 (entry0 ''u3'' ''/p3'' ''main'') ?w)
     = [entry0 ''u1'' ''/p1'' ''main'', entry0 ''u2'' ''/p2'' ''main'', entry0 ''u3'' ''/p3'' ''main'']"
    by (simp add: sw)
  from 1 2 show ?thesis by (rule conjI)
qed

text \<open>
  Claim C3, as the code has it. For every index file with at least one malformed line,
  \<^verbatim>\<open>read_index\<close> abandons the whole read: it prints the error and returns the empty list,
  so that no record of the file is returned, well-formed or not, and the malformed line
  is not skipped. The list returned is the one returned when the file cannot be opened.
  The read returns normally: no exception reaches the caller.
\<close>

theorem read_index_malformed:
  assumes "index_file w = Some ls" and "Garbage \<in> set ls"
  shows "read_index env w =
           ([], say (MsgIndexReadError (if can_read env (time w) then JSONDecodeError else OSError)) w)
         \<and> fst (read_index env w) = fst (read_index (env\<lparr>can_read := \<lambda>t. False\<rparr>) w)"
  using assms by (simp add: read_index_def read_lines_malformed)

text \<open>The theorem on a file with a malformed line between two records.\<close>

theorem read_index_malformed_witness:
  "read_index env0 \<lparr>index_file = Some [Json (entry0 ''u1'' ''/p1'' ''main''), Garbage, Json (entry0 ''u2'' ''/p2'' ''main'')],
                    trace = []\<rparr>
   = ([], \<lparr>index_file = Some [Json (entry0 ''u1'' ''/p1'' ''main''), Garbage, Json (entry0 ''u2'' ''/p2'' ''main'')],
           trace = [Printed (MsgIndexReadError JSONDecodeError)]\<rparr>)"
  using read_index_malformed [of "\<lparr>index_file = Some [Json (entry0 ''u1'' ''/p1'' ''main''), Garbage, Json (entry0 ''u2'' ''/p2'' ''main'')],
                    trace = []\<rparr>" "[Json (entry0 ''u1'' ''/p1'' ''main''), Garbage, Json (entry0 ''u2'' ''/p2'' ''main'')]" env0]
  by (simp add: env0_def say_def emit_def time_def)

text \<open>
  Claim C3 as stated (the read of a file with a malformed line fails) does not hold: on
  a file with a malformed line between two records \<^verbatim>\<open>read_index\<close> returns the empty list,
  the value it returns when there is no index file at all.
\<close>

theorem read_index_malformed_counterexample:
  "fst (read_index env0 \<lparr>index_file = Some [Json (entry0 ''u1'' ''/p1'' ''main''), Garbage, Json (entry0 ''u2'' ''/p2'' ''main'')],
                         trace = []\<rparr>) = []
   \<and> fst (read_index env0 \<lparr>index_file = Some [Json (entry0 ''u1'' ''/p1'' ''main''), Garbage, Json (entry0 ''u2'' ''/p2'' ''main'')],
                         trace = []\<rparr>)
     = fst (read_index env0 \<lparr>index_file = None, trace = []\<rparr>)"
  by (simp add: read_index_def env0_def time_def)

lemma clone_first_run:
  assumes "\<forall>t. can_read env t" "index_file w = None"
  shows "fst (clone_repository env u b (w\<lparr>index_file := Some []\<rparr>)) = fst (clone_repository env u b w)
     \<and> trace (snd (clone_repository env u b (w\<lparr>index_file := Some []\<rparr>)))
         = trace (snd (clone_repository env u b w))
     \<and> stored (snd (clone_repository env u b (w\<lparr>index_file := Some []\<rparr>)))
         = stored (snd (clone_repository env u b w))"
  using assms
  by (auto simp: clone_repository_def clone_attempt_def get_git_info_def add_to_index_def
      read_index_def write_index_def say_def emit_def time_def stored_def Let_def
      split: sum.splits prod.splits option.splits if_splits)

text \<open>
  Claim C9. When the index file does not exist, \<^verbatim>\<open>read_index\<close> returns the empty list and
  leaves the state as it is: nothing is printed, no exception is raised. Sync and list
  then print that the index holds no repositories, and \<^verbatim>\<open>add_to_index\<close> writes an index
  of one record. Where the index file can be read, each operation (sync, list, clone)
  prints and does the same as over an index file that exists and is empty, and clone
  returns the same value and leaves the same records.
\<close>

theorem first_run_empty_index:
  assumes "index_file w = None"
  shows "read_index env w = ([], w)
     \<and> sync_repositories env w = say MsgNoIndex w
     \<and> list_repositories env w = say MsgNoIndex w
     \<and> add_to_index env e w = write_index env [e] w
     \<and> ((\<forall>t. can_read env t) \<longrightarrow>
          trace (sync_repositories env (w\<lparr>index_file := Some []\<rparr>)) = trace (sync_repositories env w)
        \<and> trace (list_repositories env (w\<lparr>index_file := Some []\<rparr>)) = trace (list_repositories env w)
        \<and> fst (clone_repository env u b (w\<lparr>index_file := Some []\<rparr>)) = fst (clone_repository env u b w)
        \<and> trace (snd (clone_repository env u b (w\<lparr>index_file := Some []\<rparr>)))
            = trace (snd (clone_repository env u b w))
        \<and> stored (snd (clone_repository env u b (w\<lparr>index_file := Some []\<rparr>)))
            = stored (snd (clone_repository env u b w)))"
proof -
  have r: "read_index env w = ([], w)" using assms by (simp add: read_index_def)
  have r': "read_index env (w\<lparr>index_file := Some []\<rparr>) = ([], w\<lparr>index_file := Some []\<rparr>)"
    if "\<forall>t. can_read env t"
    using that by (simp add: read_index_def)
  have s: "sync_repositories env w = say MsgNoIndex w" by (simp add: sync_repositories_def r)
  have l: "list_repositories env w = say MsgNoIndex w" by (simp add: list_repositories_def r)
  have a: "add_to_index env e w = write_index env [e] w"
    by (simp add: add_to_index_def r upsert_def)
  have c: "trace (sync_repositories env (w\<lparr>index_file := Some []\<rparr>)) = trace (sync_repositories env w)
        \<and> trace (list_repositories env (w\<lparr>index_file := Some []\<rparr>)) = trace (list_repositories env w)"
    if "\<forall>t. can_read env t"
  proof -
    have "sync_repositories env (w\<lparr>index_file := Some []\<rparr>) = say MsgNoIndex (w\<lparr>index_file := Some []\<rparr>)"
      by (simp add: sync_repositories_def r' [OF that])
    moreover have "list_repositories env (w\<lparr>index_file := Some []\<rparr>) = say MsgNoIndex (w\<lparr>index_file := Some []\<rparr>)"
      by (simp add: list_repositories_def r' [OF that])
    ultimately show ?thesis by (simp add: s l)
  qed
  from r s l a c clone_first_run [OF _ assms, of env u b] show ?thesis by blast
qed

text \<open>The theorem on the state of a first run.\<close>

theorem first_run_empty_index_witness:
  "read_index env0 \<lparr>index_file = None, trace = []\<rparr> = ([], \<lparr>index_file = None, trace = []\<rparr>)
   \<and> sync_repositories env0 \<lparr>index_file = None, trace = []\<rparr>
       = \<lparr>index_file = None, trace = [Printed MsgNoIndex]\<rparr>
   \<and> list_repositories env0 \<lparr>index_file = None, trace = []\<rparr>
       = \<lparr>index_file = None, trace = [Printed MsgNoIndex]\<rparr>
   \<and> add_to_index env0 (entry0 ''u1'' ''/p1'' ''main'') \<lparr>index_file = None, trace = []\<rparr>
       = \<lparr>index_file = Some [Json (entry0 ''u1'' ''/p1'' ''main'')],
          trace = [WroteIndex [entry0 ''u1'' ''/p1'' ''main'']]\<rparr>"
proof -
  have h: "index_file \<lparr>index_file = None, trace = []\<rparr> = None" by simp
  from first_run_empty_index [OF h, of env0 "entry0 ''u1'' ''/p1'' ''main''"]
  show ?thesis by (simp add: say_def emit_def write_index_def env0_def time_def)
qed

section \<open>Properties of the single clone\<close>


lemma since_say [simp]: "since w (say m w) = [Printed m]"
  by (simp add: since_def time_def)

lemma since_trans:
  "\<exists>a. trace w1 = trace w @ a \<Longrightarrow> \<exists>b. trace w2 = trace w1 @ b \<Longrightarrow>
     since w w2 = since w w1 @ since w1 w2"
  by (auto simp: since_def time_def)

lemma clone_each_counts:
  "clone_each env ou b rs c s w = (c', s', w') \<Longrightarrow> c' + s' = c + s + length rs \<and> c \<le> c' \<and> s \<le> s'"
proof (induction rs arbitrary: c s w)
  case Nil
  then show ?case by simp
next
  case (Cons r rs)
  from Cons.prems show ?case
    by (auto simp: Let_def split: prod.splits if_splits dest!: Cons.IH)
qed

lemma clone_repository_exists:
  assumes "parse_git_url env u = Inr (h, og, rp)"
    and "path_exists env (time w) (get_local_path env h og rp)"
  shows "clone_repository env u b w
           = (False, say MsgUseSync (say (MsgAlreadyExists (get_local_path env h og rp)) w))"
  using assms by (simp add: clone_repository_def clone_attempt_def)

lemma clone_repository_unparsed:
  assumes "parse_git_url env u = Inl x"
  shows "clone_repository env u b w = (False, say (MsgCloneError x) w)"
  using assms by (simp add: clone_repository_def clone_attempt_def)

lemma clone_each_single:
  assumes "\<And>v. fst (clone_repository env (clone_url d) b v) = False"
  shows "\<exists>w'. clone_each env ou b [d] c s w = (c, Suc s, w')"
proof -
  let ?w1 = "say (MsgCloning ou (name d)) w"
  let ?w2 = "case description d of None \<Rightarrow> ?w1
             | Some x \<Rightarrow> if x = [] then ?w1 else say (MsgDescription x) ?w1"
  obtain ok w3 where cr: "clone_repository env (clone_url d) b ?w2 = (ok, w3)"
    by fastforce
  with assms [of ?w2] have "ok = False" by simp
  with cr show ?thesis by (simp add: Let_def)
qed

text \<open>
  Claim C2, as the code has it. Let the URL parse and let its local path exist when
  \<^verbatim>\<open>clone_repository\<close> is called. Then the call returns \<^verbatim>\<open>False\<close> and all it does is print
  two lines: no subprocess is run, so the VCS clone operation is not invoked. \<^verbatim>\<open>False\<close> is
  also what a hard error returns, and the loop of the bulk clone has one counter for
  both: a descriptor whose path exists adds one to \<^verbatim>\<open>skipped_count\<close>, a descriptor whose
  URL does not parse adds one to \<^verbatim>\<open>skipped_count\<close>, and every descriptor is counted once,
  as cloned or as skipped.
\<close>

theorem clone_repository_skip:
  assumes p: "parse_git_url env u = Inr (h, og, rp)"
    and e: "path_exists env (time w) (get_local_path env h og rp)"
  shows "clone_repository env u b w
           = (False, say MsgUseSync (say (MsgAlreadyExists (get_local_path env h og rp)) w))
     \<and> since w (snd (clone_repository env u b w))
           = [Printed (MsgAlreadyExists (get_local_path env h og rp)), Printed MsgUseSync]
     \<and> (\<forall>ev \<in> set (since w (snd (clone_repository env u b w))). \<not> is_clone ev)
     \<and> (\<forall>d ou c s v. clone_url d = u \<and> (\<forall>t. path_exists env t (get_local_path env h og rp))
           \<longrightarrow> (\<exists>v'. clone_each env ou b [d] c s v = (c, Suc s, v')))
     \<and> (\<forall>d ou c s v. (\<exists>x. parse_git_url env (clone_url d) = Inl x)
           \<longrightarrow> (\<exists>v'. clone_each env ou b [d] c s v = (c, Suc s, v')))
     \<and> (\<forall>ou rs c s v c' s' v'. clone_each env ou b rs c s v = (c', s', v')
           \<longrightarrow> c' + s' = c + s + length rs \<and> c \<le> c' \<and> s \<le> s')"
proof (intro conjI allI impI ballI)
  show r: "clone_repository env u b w
           = (False, say MsgUseSync (say (MsgAlreadyExists (get_local_path env h og rp)) w))"
    using p e by (rule clone_repository_exists)
  show s: "since w (snd (clone_repository env u b w))
           = [Printed (MsgAlreadyExists (get_local_path env h og rp)), Printed MsgUseSync]"
    by (simp add: r since_def time_def)
  fix ev assume "ev \<in> set (since w (snd (clone_repository env u b w)))"
  then show "\<not> is_clone ev" unfolding s by (auto simp: is_clone_def)
next
  fix d :: repo_data and ou c s v
  assume a: "clone_url d = u \<and> (\<forall>t. path_exists env t (get_local_path env h og rp))"
  then have "fst (clone_repository env (clone_url d) b x) = False" for x
    using clone_repository_exists [OF p, of x b] by simp
  then show "\<exists>v'. clone_each env ou b [d] c s v = (c, Suc s, v')"
    by (rule clone_each_single)
next
  fix d :: repo_data and ou c s v
  assume "\<exists>x. parse_git_url env (clone_url d) = Inl x"
  then obtain x where "parse_git_url env (clone_url d) = Inl x" ..
  then have "fst (clone_repository env (clone_url d) b y) = False" for y
    by (simp add: clone_repository_unparsed)
  then show "\<exists>v'. clone_each env ou b [d] c s v = (c, Suc s, v')"
    by (rule clone_each_single)
next
  fix ou rs c s v c' s' v'
  assume "clone_each env ou b rs c s v = (c', s', v')"
  then have "c' + s' = c + s + length rs \<and> c \<le> c' \<and> s \<le> s'"
    by (rule clone_each_counts)
  then show "c' + s' = c + s + length rs" and "c \<le> c'" and "s \<le> s'" by simp_all
qed

lemma p_old: "parse_git_url env ''https://github.com/acme/old.git'' = Inr (''github.com'', ''acme'', ''old'')"
  using https_form [of "''github.com''" "''acme''" "''old''" "''.git''" env]
  by (simp add: url_name_def)

lemma p_new: "parse_git_url env ''https://github.com/acme/new.git'' = Inr (''github.com'', ''acme'', ''new'')"
  using https_form [of "''github.com''" "''acme''" "''new''" "''.git''" env]
  by (simp add: url_name_def)

text \<open>The theorem on a repository whose working copy exists below \<^verbatim>\<open>/tmp/r\<close>.\<close>

theorem clone_repository_skip_witness:
  "clone_repository (env0\<lparr>path_exists := \<lambda>t p. p = ''/tmp/r/github.com/acme/old''\<rparr>)
      ''https://github.com/acme/old.git'' None world0
   = (False, \<lparr>index_file = None,
              trace = [Printed (MsgAlreadyExists ''/tmp/r/github.com/acme/old''), Printed MsgUseSync]\<rparr>)"
proof -
  let ?env = "env0\<lparr>path_exists := \<lambda>t p. p = ''/tmp/r/github.com/acme/old''\<rparr>"
  have g: "get_local_path ?env ''github.com'' ''acme'' ''old'' = ''/tmp/r/github.com/acme/old''"
    by (simp add: get_local_path_def env0_def)
  have e: "path_exists ?env (time world0) (get_local_path ?env ''github.com'' ''acme'' ''old'')"
    by (simp add: g)
  from clone_repository_skip [OF p_old e, of None]
  show ?thesis by (simp add: g say_def emit_def world0_def)
qed

text \<open>
  Claim C2 as stated (the skip outcome is distinguished from a hard error, and the bulk
  clone counts the two separately) fails. With the working copy of \<^verbatim>\<open>acme/old\<close> on disk and
  a VCS whose every command exits with an error, \<^verbatim>\<open>clone_repository\<close> returns \<^verbatim>\<open>False\<close> for
  \<^verbatim>\<open>old\<close> (the skip) and \<^verbatim>\<open>False\<close> for \<^verbatim>\<open>new\<close> (the failed clone), and the bulk loop over
  the two ends with no repository cloned and two skipped.
\<close>

theorem clone_repository_skip_counterexample:
  "fst (clone_repository
          (env0\<lparr>path_exists := \<lambda>t p. p = ''/tmp/r/github.com/acme/old'',
                run := \<lambda>t argv cwd. Inl CalledProcessError\<rparr>)
          ''https://github.com/acme/old.git'' None world0) = False
   \<and> fst (clone_repository
          (env0\<lparr>path_exists := \<lambda>t p. p = ''/tmp/r/github.com/acme/old'',
                run := \<lambda>t argv cwd. Inl CalledProcessError\<rparr>)
          ''https://github.com/acme/new.git'' None world0) = False
   \<and> (case clone_each
          (env0\<lparr>path_exists := \<lambda>t p. p = ''/tmp/r/github.com/acme/old'',
                run := \<lambda>t argv cwd. Inl CalledProcessError\<rparr>)
          ''acme'' None
          [repo0 ''old'' ''https://github.com/acme/old.git'' False,
           repo0 ''new'' ''https://github.com/acme/new.git'' False] 0 0 world0
       of (cloned_count, skipped_count, w) \<Rightarrow> cloned_count = 0 \<and> skipped_count = 2)"
  by (simp add: clone_repository_def clone_attempt_def p_old p_new get_local_path_def env0_def
      repo0_def world0_def say_def emit_def time_def Let_def)

section \<open>Properties of the sync\<close>


lemma since_append: "trace w' = trace w @ evs \<Longrightarrow> since w w' = evs"
  by (simp add: since_def time_def)

lemma get_git_info_trace:
  assumes "get_git_info env p w = (r, w')" and "path_exists env t p"
  shows "index_file w' = index_file w
     \<and> (\<exists>evs. trace w' = trace w @ evs \<and> (\<forall>ev \<in> set evs. sync_event env ev))"
  using assms
  by (auto simp: get_git_info_def Let_def sync_event_def split: sum.splits)

lemma sync_entry_trace:
  assumes "sync_entry env e w = (e', w')"
  shows "index_file w' = index_file w
     \<and> (\<exists>evs. trace w' = trace w @ evs \<and> (\<forall>ev \<in> set evs. sync_event env ev)
           \<and> (\<not> path_exists env (time w) (local_path e)
                \<longrightarrow> e' = e \<and> evs = [Printed (MsgNotFound (local_path e))]))"
proof (cases "path_exists env (time w) (local_path e)")
  case False
  with assms show ?thesis by (auto simp: sync_entry_def sync_event_def)
next
  case True
  let ?w1 = "say (MsgSyncingRepo (org e) (repo e)) w"
  let ?w2 = "emit (Ran [''git'', ''pull'', ''origin''] (Some (local_path e))) ?w1"
  have pull: "sync_event env (Ran [''git'', ''pull'', ''origin''] (Some (local_path e)))"
    using True by (auto simp: sync_event_def)
  have pr: "sync_event env (Printed m)" for m by (simp add: sync_event_def)
  show ?thesis
  proof (cases "run env (time ?w1) [''git'', ''pull'', ''origin''] (Some (local_path e))")
    case (Inl x)
    with assms True pull pr show ?thesis
      by (auto simp: sync_entry_def Let_def)
  next
    case (Inr out)
    obtain r w3 where g: "get_git_info env (local_path e) ?w2 = (r, w3)" by fastforce
    from get_git_info_trace [OF g True] obtain evs where
      evs: "index_file w3 = index_file w" "trace w3 = trace ?w2 @ evs" "\<forall>ev \<in> set evs. sync_event env ev"
      by auto
    from assms True Inr g evs pull pr show ?thesis
      by (cases r) (auto simp: sync_entry_def Let_def)
  qed
qed

lemma sync_entries_trace:
  "sync_entries env es w = (es', w') \<Longrightarrow>
     length es' = length es \<and> index_file w' = index_file w
     \<and> (\<exists>evs. trace w' = trace w @ evs \<and> (\<forall>ev \<in> set evs. sync_event env ev)
           \<and> (\<forall>i < length es. (\<forall>t. \<not> path_exists env t (local_path (es ! i)))
                 \<longrightarrow> es' ! i = es ! i \<and> Printed (MsgNotFound (local_path (es ! i))) \<in> set evs))"
proof (induction es arbitrary: w es' w')
  case Nil
  then show ?case by simp
next
  case (Cons e es)
  obtain e1 w1 where h: "sync_entry env e w = (e1, w1)" by fastforce
  obtain es2 w2 where t: "sync_entries env es w1 = (es2, w2)" by fastforce
  from Cons.prems h t have r: "es' = e1 # es2" "w' = w2" by simp_all
  from sync_entry_trace [OF h] obtain a where
    a: "index_file w1 = index_file w" "trace w1 = trace w @ a" "\<forall>ev \<in> set a. sync_event env ev"
       "\<not> path_exists env (time w) (local_path e) \<longrightarrow> e1 = e \<and> a = [Printed (MsgNotFound (local_path e))]"
    by blast
  from Cons.IH [OF t] obtain b where
    b: "length es2 = length es" "index_file w2 = index_file w1" "trace w2 = trace w1 @ b"
       "\<forall>ev \<in> set b. sync_event env ev"
       "\<forall>i < length es. (\<forall>t. \<not> path_exists env t (local_path (es ! i)))
                 \<longrightarrow> es2 ! i = es ! i \<and> Printed (MsgNotFound (local_path (es ! i))) \<in> set b"
    by blast
  have A: "\<forall>i < length (e # es). (\<forall>t. \<not> path_exists env t (local_path ((e # es) ! i)))
          \<longrightarrow> (e1 # es2) ! i = (e # es) ! i
              \<and> Printed (MsgNotFound (local_path ((e # es) ! i))) \<in> set (a @ b)"
  proof (intro allI impI)
    fix i assume i: "i < length (e # es)" and m: "\<forall>t. \<not> path_exists env t (local_path ((e # es) ! i))"
    show "(e1 # es2) ! i = (e # es) ! i
              \<and> Printed (MsgNotFound (local_path ((e # es) ! i))) \<in> set (a @ b)"
    proof (cases i)
      case 0
      with m a(4) show ?thesis by simp
    next
      case (Suc j)
      with i m b(5) show ?thesis by simp
    qed
  qed
  have B: "trace w2 = trace w @ (a @ b)" using a(2) b(3) by simp
  have C: "\<forall>ev \<in> set (a @ b). sync_event env ev" using a(3) b(4) by auto
  show ?case unfolding r
  proof (intro conjI exI [of _ "a @ b"])
    show "length (e1 # es2) = length (e # es)" using b(1) by simp
    show "index_file w2 = index_file w" using a(1) b(2) by simp
  qed (rule B, rule C, rule A)
qed

text \<open>
  Claim C7. Let the index file be readable with no malformed line and writable, and let
  the record at position \<open>i\<close> have a local path that does not exist during the run. Then
  \<^verbatim>\<open>sync_repositories\<close> prints that the path was not found, runs no command in that
  directory (no pull), runs no clone at all, and the index it leaves has as many records
  as before with the record at position \<open>i\<close> unchanged. The index is written once, as
  the last action before the closing message.
\<close>

theorem sync_missing_path:
  assumes f: "index_file w = Some ls" and g: "Garbage \<notin> set ls" and rd: "can_read env (time w)"
    and wr: "\<forall>t. can_write env t"
    and i: "i < length (stored w)"
    and miss: "\<forall>t. \<not> path_exists env t (local_path (stored w ! i))"
  shows "Printed (MsgNotFound (local_path (stored w ! i))) \<in> set (since w (sync_repositories env w))
     \<and> (\<forall>argv. Ran argv (Some (local_path (stored w ! i))) \<notin> set (since w (sync_repositories env w)))
     \<and> (\<forall>ev \<in> set (since w (sync_repositories env w)). \<not> is_clone ev)
     \<and> length (stored (sync_repositories env w)) = length (stored w)
     \<and> stored (sync_repositories env w) ! i = stored w ! i
     \<and> (\<exists>evs. since w (sync_repositories env w)
                 = evs @ [WroteIndex (stored (sync_repositories env w)), Printed MsgSyncComplete]
              \<and> (\<forall>ev \<in> set evs. \<forall>es. ev \<noteq> WroteIndex es))"
proof -
  let ?es = "stored w"
  let ?w0 = "say (MsgSyncing (length ?es)) w"
  have r: "read_index env w = (?es, w)"
    using f g rd by (intro read_index_wellformed) simp
  from i have ne: "?es \<noteq> []" by auto
  obtain es' w2 where s: "sync_entries env ?es ?w0 = (es', w2)" by fastforce
  from sync_entries_trace [OF s] obtain evs where
    e: "length es' = length ?es" "trace w2 = trace ?w0 @ evs" "\<forall>ev \<in> set evs. sync_event env ev"
       "\<forall>i < length ?es. (\<forall>t. \<not> path_exists env t (local_path (?es ! i)))
           \<longrightarrow> es' ! i = ?es ! i \<and> Printed (MsgNotFound (local_path (?es ! i))) \<in> set evs"
    by blast
  have res: "sync_repositories env w = say MsgSyncComplete (write_index env es' w2)"
    using ne by (simp add: sync_repositories_def r s)
  have st: "stored (sync_repositories env w) = es'"
    using wr by (simp add: res write_index_def stored_def)
  have tr: "trace (sync_repositories env w)
      = trace w @ ((Printed (MsgSyncing (length ?es)) # evs) @ [WroteIndex es', Printed MsgSyncComplete])"
    using wr e(2) by (simp add: res write_index_def)
  have si: "since w (sync_repositories env w)
      = (Printed (MsgSyncing (length ?es)) # evs) @ [WroteIndex es', Printed MsgSyncComplete]"
    using tr by (rule since_append)
  from e(4) i miss have m: "es' ! i = ?es ! i" "Printed (MsgNotFound (local_path (?es ! i))) \<in> set evs"
    by simp_all
  have 1: "Printed (MsgNotFound (local_path (?es ! i))) \<in> set (since w (sync_repositories env w))"
    using m(2) by (simp add: si)
  have 2: "\<forall>argv. Ran argv (Some (local_path (?es ! i))) \<notin> set (since w (sync_repositories env w))"
  proof (intro allI notI)
    fix argv assume "Ran argv (Some (local_path (?es ! i))) \<in> set (since w (sync_repositories env w))"
    then have "Ran argv (Some (local_path (?es ! i))) \<in> set evs" by (simp add: si)
    with e(3) have "sync_event env (Ran argv (Some (local_path (?es ! i))))" by blast
    with miss show False by (simp add: sync_event_def)
  qed
  have 3: "\<forall>ev \<in> set (since w (sync_repositories env w)). \<not> is_clone ev"
    using e(3) by (auto simp: si is_clone_def sync_event_def split: event.splits)
  have 4: "\<exists>a. since w (sync_repositories env w)
                 = a @ [WroteIndex (stored (sync_repositories env w)), Printed MsgSyncComplete]
              \<and> (\<forall>ev \<in> set a. \<forall>es. ev \<noteq> WroteIndex es)"
  proof (intro exI conjI)
    show "since w (sync_repositories env w)
       = (Printed (MsgSyncing (length ?es)) # evs) @ [WroteIndex (stored (sync_repositories env w)), Printed MsgSyncComplete]"
      by (simp add: si st)
    show "\<forall>ev \<in> set (Printed (MsgSyncing (length ?es)) # evs). \<forall>es. ev \<noteq> WroteIndex es"
      using e(3) by (auto simp: sync_event_def)
  qed
  from 1 2 3 4 e(1) m(1) show ?thesis by (simp add: st)
qed

text \<open>The theorem on an index of two records, the first with a missing working copy.\<close>

theorem sync_missing_path_witness:
  "Printed (MsgNotFound ''/p1'')
     \<in> set (since \<lparr>index_file = Some [Json (entry0 ''u1'' ''/p1'' ''main''), Json (entry0 ''u2'' ''/p2'' ''old'')],
                    trace = []\<rparr>
              (sync_repositories (env0\<lparr>path_exists := \<lambda>t p. p = ''/p2''\<rparr>)
                 \<lparr>index_file = Some [Json (entry0 ''u1'' ''/p1'' ''main''), Json (entry0 ''u2'' ''/p2'' ''old'')],
                  trace = []\<rparr>))
   \<and> stored (sync_repositories (env0\<lparr>path_exists := \<lambda>t p. p = ''/p2''\<rparr>)
                 \<lparr>index_file = Some [Json (entry0 ''u1'' ''/p1'' ''main''), Json (entry0 ''u2'' ''/p2'' ''old'')],
                  trace = []\<rparr>) ! 0
       = entry0 ''u1'' ''/p1'' ''main''"
proof -
  let ?env = "env0\<lparr>path_exists := \<lambda>t p. p = ''/p2''\<rparr>"
  let ?ls = "[Json (entry0 ''u1'' ''/p1'' ''main''), Json (entry0 ''u2'' ''/p2'' ''old'')]"
  let ?w = "\<lparr>index_file = Some ?ls, trace = []\<rparr>"
  have st: "stored ?w = [entry0 ''u1'' ''/p1'' ''main'', entry0 ''u2'' ''/p2'' ''old'']"
    by (simp add: stored_def)
  have f: "index_file ?w = Some ?ls" by simp
  have g: "Garbage \<notin> set ?ls" by simp
  have rd: "can_read ?env (time ?w)" by (simp add: env0_def)
  have wr: "\<forall>t. can_write ?env t" by (simp add: env0_def)
  have i: "0 < length (stored ?w)" by (simp add: st)
  have lp: "local_path (entry0 u p b) = p" for u p b by (simp add: entry0_def)
  have miss: "\<forall>t. \<not> path_exists ?env t (local_path (stored ?w ! 0))"
    by (simp add: st lp)
  from sync_missing_path [OF f g rd wr i miss]
  show ?thesis by (simp add: st lp)
qed

end
